theory Spec2Isabelle
  imports Main "HOL-Library.AList"
begin

section \<open>The syntax tree consumed by the emitter\<close>

text \<open>
  The emitter of Poryscript (\<^verbatim>\<open>emitter/emitter.go\<close>) receives a parsed program. An atomic
  comparison (\<^verbatim>\<open>ast.OperatorExpression\<close>) is opaque to the emitter and is represented by its
  text. The operator of a binary expression is a token type; the emitter compares it with
  \<^verbatim>\<open>token.AND\<close> and \<^verbatim>\<open>token.OR\<close> only.
\<close>

type_synonym operator_expression = string

datatype token_type = AND | OR | OtherToken string

datatype boolean_expression =
    OperatorExpression operator_expression
  | BinaryExpression boolean_expression token_type boolean_expression

text \<open>
  Statements of a script body. A loop statement is used by the emitter as the key of a Go map,
  that is by the identity of its node; the node identity is the natural number carried by
  \<open>WhileStatement\<close> and \<open>DoWhileStatement\<close>, and \<open>BreakStatement\<close> and \<open>ContinueStatement\<close>
  carry the identity of the node their \<^verbatim>\<open>LoopStatment\<close> field points to. A condition
  expression (\<^verbatim>\<open>ast.ConditionExpression\<close>) is the pair of its expression and the statements
  of its body. \<open>OtherStatement\<close> is any other implementation of \<^verbatim>\<open>ast.Statement\<close>.
\<close>

datatype statement =
    CommandStatement string "string list"
  | IfStatement "boolean_expression \<times> statement list"
      "(boolean_expression \<times> statement list) list" "statement list option"
  | WhileStatement nat "boolean_expression \<times> statement list"
  | DoWhileStatement nat "boolean_expression \<times> statement list"
  | BreakStatement nat
  | ContinueStatement nat
  | OtherStatement string

section \<open>Chunks\<close>

record conditionDestination =
  dest_id :: int
  operatorExpression :: operator_expression

datatype brancher =
    Jump int
  | BreakContext int
  | LeafExpressionBranch conditionDestination int

text \<open>
  A chunk as the emitter's composite literals build it. A field left out of a Go composite
  literal has its zero value: \<open>returnID = 0\<close> and no branch behaviour.
\<close>

record chunk =
  chunk_id :: int
  returnID :: int
  statements :: "statement list"
  branchBehavior :: "brancher option"

text \<open>A panic of the Go runtime ends the call; it is the \<open>Inl\<close> side of every result.\<close>

datatype error = Panic string | NilPointerDereference

section \<open>Linearizing boolean expressions\<close>

definition createConditionDestination :: "int \<Rightarrow> operator_expression \<Rightarrow> conditionDestination" where
  "createConditionDestination destinationChunk opExpression =
     \<lparr>dest_id = destinationChunk, operatorExpression = opExpression\<rparr>"

text \<open>
  \<^verbatim>\<open>splitBooleanExpressionChunks\<close>. The counter behind the pointer \<^verbatim>\<open>chunkCounter\<close> is passed
  in and returned as the last component of the result. The returned chunk pointer may be
  \<^verbatim>\<open>nil\<close> (\<open>None\<close>); reading \<^verbatim>\<open>linkChunk.id\<close> through a nil pointer panics.
\<close>

fun splitBooleanExpressionChunks ::
  "boolean_expression \<Rightarrow> int \<Rightarrow> int \<Rightarrow> int \<Rightarrow> chunk list \<Rightarrow> int
     \<Rightarrow> error + (chunk list \<times> chunk option \<times> int \<times> int)" where
  "splitBooleanExpressionChunks (OperatorExpression opExpression) chunkCounter
       successChunkID failureChunkID remainingChunks firstID =
     (let dest = createConditionDestination successChunkID opExpression;
          chunkCounter1 = chunkCounter + 1;
          newChunk = \<lparr>chunk_id = chunkCounter1, returnID = 0, statements = [],
             branchBehavior = Some (LeafExpressionBranch dest failureChunkID)\<rparr>;
          remainingChunks1 = remainingChunks @ [newChunk];
          firstID1 = (if firstID = -1 then chunk_id newChunk else firstID)
      in Inr (remainingChunks1, Some newChunk, firstID1, chunkCounter1))"
| "splitBooleanExpressionChunks (BinaryExpression left operator right) chunkCounter
       successChunkID failureChunkID remainingChunks firstID =
     (if operator = AND then
        (let chunkCounter1 = chunkCounter + 1;
             successChunk = \<lparr>chunk_id = chunkCounter1, returnID = 0, statements = [],
               branchBehavior = None\<rparr>
         in case splitBooleanExpressionChunks left chunkCounter1 (chunk_id successChunk)
                   failureChunkID remainingChunks firstID of
              Inl e \<Rightarrow> Inl e
            | Inr (remainingChunks2, leftLink, firstID2, chunkCounter2) \<Rightarrow>
               (case splitBooleanExpressionChunks right chunkCounter2 successChunkID
                       failureChunkID remainingChunks2 firstID2 of
                  Inl e \<Rightarrow> Inl e
                | Inr (remainingChunks3, linkChunk, firstID3, chunkCounter3) \<Rightarrow>
                   (case linkChunk of
                      None \<Rightarrow> Inl NilPointerDereference
                    | Some lc \<Rightarrow>
                        Inr (remainingChunks3 @
                               [successChunk\<lparr>branchBehavior := Some (Jump (chunk_id lc))\<rparr>],
                             leftLink, firstID3, chunkCounter3))))
      else if operator = OR then
        (let chunkCounter1 = chunkCounter + 1;
             failChunk = \<lparr>chunk_id = chunkCounter1, returnID = 0, statements = [],
               branchBehavior = None\<rparr>
         in case splitBooleanExpressionChunks left chunkCounter1 successChunkID
                   (chunk_id failChunk) remainingChunks firstID of
              Inl e \<Rightarrow> Inl e
            | Inr (remainingChunks2, leftLink, firstID2, chunkCounter2) \<Rightarrow>
               (case splitBooleanExpressionChunks right chunkCounter2 successChunkID
                       failureChunkID remainingChunks2 firstID2 of
                  Inl e \<Rightarrow> Inl e
                | Inr (remainingChunks3, linkChunk, firstID3, chunkCounter3) \<Rightarrow>
                   (case linkChunk of
                      None \<Rightarrow> Inl NilPointerDereference
                    | Some lc \<Rightarrow>
                        Inr (remainingChunks3 @
                               [failChunk\<lparr>branchBehavior := Some (Jump (chunk_id lc))\<rparr>],
                             leftLink, firstID3, chunkCounter3))))
      else Inr (remainingChunks, None, firstID, chunkCounter))"

section \<open>Splitting a script body into chunks\<close>

text \<open>
  Modelled from the spec: the method \<^verbatim>\<open>splitChunkForBranch\<close> of a chunk is defined with the
  chunk type, outside \<^verbatim>\<open>emitter.go\<close>. The specification describes it as splitting off a
  fresh continuation chunk that holds the statements after the branching statement and
  continues where the original chunk would have continued; the new chunk is pending, and its
  id is the common return id of the branches.
\<close>

definition splitChunkForBranch ::
  "chunk \<Rightarrow> nat \<Rightarrow> int \<Rightarrow> chunk list \<Rightarrow> chunk list \<times> int \<times> int" where
  "splitChunkForBranch c statementIndex chunkCounter remainingChunks =
     (let chunkCounter1 = chunkCounter + 1;
          newChunk = \<lparr>chunk_id = chunkCounter1, returnID = returnID c,
             statements = drop (statementIndex + 1) (statements c), branchBehavior = None\<rparr>
      in (remainingChunks @ [newChunk], chunk_id newChunk, chunkCounter1))"

text \<open>The loop \<^verbatim>\<open>for _, elifStmt := range stmt.ElifConsequences\<close> of \<^verbatim>\<open>createIfStatementChunks\<close>.\<close>

primrec elifChunksLoop ::
  "(boolean_expression \<times> statement list) list \<Rightarrow> int \<Rightarrow> int \<Rightarrow> chunk list \<Rightarrow> chunk list
     \<Rightarrow> int \<times> chunk list \<times> chunk list" where
  "elifChunksLoop [] retID chunkCounter remainingChunks elifChunks =
     (chunkCounter, remainingChunks, elifChunks)"
| "elifChunksLoop (elifStmt # rest) retID chunkCounter remainingChunks elifChunks =
     (let chunkCounter1 = chunkCounter + 1;
          elifChunk = \<lparr>chunk_id = chunkCounter1, returnID = retID,
             statements = snd elifStmt, branchBehavior = None\<rparr>
      in elifChunksLoop rest retID chunkCounter1 (remainingChunks @ [elifChunk])
           (elifChunks @ [elifChunk]))"

text \<open>
  The loop \<^verbatim>\<open>for i := len(elifChunks) - 1; i >= 0; i--\<close>, which stitches the elif conditions
  in reverse order: \<open>elifStitchLoop (Suc i)\<close> runs the iteration of index \<open>i\<close> and goes on
  with \<open>i - 1\<close>. The state is the pending chunks, \<^verbatim>\<open>prevElifEntryID\<close> and the counter.
\<close>

primrec elifStitchLoop ::
  "nat \<Rightarrow> (boolean_expression \<times> statement list) list \<Rightarrow> chunk list \<Rightarrow> chunk option \<Rightarrow> int
     \<Rightarrow> chunk list \<Rightarrow> int \<Rightarrow> int \<Rightarrow> error + (chunk list \<times> int \<times> int)" where
  "elifStitchLoop 0 elifConsequences elifChunks elseChunk retID
       remainingChunks prevElifEntryID chunkCounter =
     Inr (remainingChunks, prevElifEntryID, chunkCounter)"
| "elifStitchLoop (Suc i) elifConsequences elifChunks elseChunk retID
       remainingChunks prevElifEntryID chunkCounter =
     (let failureChunkID =
            (if i = length elifChunks - 1
             then (case elseChunk of Some ec \<Rightarrow> chunk_id ec | None \<Rightarrow> retID)
             else prevElifEntryID)
      in case splitBooleanExpressionChunks (fst (elifConsequences ! i)) chunkCounter
                (chunk_id (elifChunks ! i)) failureChunkID remainingChunks (-1) of
           Inl e \<Rightarrow> Inl e
         | Inr (remainingChunks1, _, entryID, chunkCounter1) \<Rightarrow>
             elifStitchLoop i elifConsequences elifChunks elseChunk retID
               remainingChunks1 entryID chunkCounter1)"

text \<open>
  \<^verbatim>\<open>createIfStatementChunks\<close>; the if statement is given by its consequence, its elif
  consequences and its optional else block.
\<close>

definition createIfStatementChunks ::
  "boolean_expression \<times> statement list \<Rightarrow> (boolean_expression \<times> statement list) list
     \<Rightarrow> statement list option \<Rightarrow> nat \<Rightarrow> chunk \<Rightarrow> chunk list \<Rightarrow> int
     \<Rightarrow> error + (chunk list \<times> brancher \<times> int)" where
  "createIfStatementChunks consequence elifConsequences elseConsequence i curChunk
       remainingChunks chunkCounter =
     (let (remainingChunks1, retID, chunkCounter1) =
            splitChunkForBranch curChunk i chunkCounter remainingChunks;
          chunkCounter2 = chunkCounter1 + 1;
          consequenceChunk = \<lparr>chunk_id = chunkCounter2, returnID = retID,
             statements = snd consequence, branchBehavior = None\<rparr>;
          remainingChunks2 = remainingChunks1 @ [consequenceChunk];
          (chunkCounter3, remainingChunks3, elifChunks) =
            elifChunksLoop elifConsequences retID chunkCounter2 remainingChunks2 [];
          (elseChunk, chunkCounter4, remainingChunks4) =
            (case elseConsequence of
               None \<Rightarrow> (None, chunkCounter3, remainingChunks3)
             | Some elseStatements \<Rightarrow>
                 (let ec = \<lparr>chunk_id = chunkCounter3 + 1, returnID = retID,
                        statements = elseStatements, branchBehavior = None\<rparr>
                  in (Some ec, chunkCounter3 + 1, remainingChunks3 @ [ec])))
      in case elifStitchLoop (length elifChunks) elifConsequences elifChunks elseChunk retID
                remainingChunks4 (-1) chunkCounter4 of
           Inl e \<Rightarrow> Inl e
         | Inr (remainingChunks5, prevElifEntryID, chunkCounter5) \<Rightarrow>
             (let failureChunkID =
                    (if length elifChunks > 0 then prevElifEntryID
                     else (case elseChunk of Some ec \<Rightarrow> chunk_id ec | None \<Rightarrow> retID))
              in case splitBooleanExpressionChunks (fst consequence) chunkCounter5
                        (chunk_id consequenceChunk) failureChunkID remainingChunks5 (-1) of
                   Inl e \<Rightarrow> Inl e
                 | Inr (remainingChunks6, _, initialEntryChunkID, chunkCounter6) \<Rightarrow>
                     Inr (remainingChunks6, Jump initialEntryChunkID, chunkCounter6)))"

text \<open>
  \<^verbatim>\<open>createWhileStatementChunks\<close> and \<^verbatim>\<open>createDoWhileStatementChunks\<close> return the pending
  chunks, the destination of the returned jump, the return id and the counter.
\<close>

definition createWhileStatementChunks ::
  "boolean_expression \<times> statement list \<Rightarrow> nat \<Rightarrow> chunk \<Rightarrow> chunk list \<Rightarrow> int
     \<Rightarrow> error + (chunk list \<times> brancher \<times> int \<times> int)" where
  "createWhileStatementChunks consequence i curChunk remainingChunks chunkCounter =
     (let (remainingChunks1, retID, chunkCounter1) =
            splitChunkForBranch curChunk i chunkCounter remainingChunks;
          chunkCounter2 = chunkCounter1 + 1;
          headerChunk = \<lparr>chunk_id = chunkCounter2, returnID = retID, statements = [],
             branchBehavior = None\<rparr>;
          chunkCounter3 = chunkCounter2 + 1;
          consequenceChunk = \<lparr>chunk_id = chunkCounter3, returnID = chunk_id headerChunk,
             statements = snd consequence, branchBehavior = None\<rparr>
      in case splitBooleanExpressionChunks (fst consequence) chunkCounter3
                (chunk_id consequenceChunk) retID remainingChunks1 (-1) of
           Inl e \<Rightarrow> Inl e
         | Inr (remainingChunks2, _, entryChunkID, chunkCounter4) \<Rightarrow>
             (let headerChunk1 = headerChunk\<lparr>branchBehavior := Some (Jump entryChunkID)\<rparr>;
                  remainingChunks3 = remainingChunks2 @ [consequenceChunk];
                  remainingChunks4 = remainingChunks3 @ [headerChunk1]
              in Inr (remainingChunks4, Jump (chunk_id headerChunk1), retID, chunkCounter4)))"

definition createDoWhileStatementChunks ::
  "boolean_expression \<times> statement list \<Rightarrow> nat \<Rightarrow> chunk \<Rightarrow> chunk list \<Rightarrow> int
     \<Rightarrow> error + (chunk list \<times> brancher \<times> int \<times> int)" where
  "createDoWhileStatementChunks consequence i curChunk remainingChunks chunkCounter =
     (let (remainingChunks1, retID, chunkCounter1) =
            splitChunkForBranch curChunk i chunkCounter remainingChunks;
          chunkCounter2 = chunkCounter1 + 1;
          headerChunk = \<lparr>chunk_id = chunkCounter2, returnID = retID, statements = [],
             branchBehavior = None\<rparr>;
          chunkCounter3 = chunkCounter2 + 1;
          consequenceChunk = \<lparr>chunk_id = chunkCounter3, returnID = chunk_id headerChunk,
             statements = snd consequence, branchBehavior = None\<rparr>
      in case splitBooleanExpressionChunks (fst consequence) chunkCounter3
                (chunk_id consequenceChunk) retID remainingChunks1 (-1) of
           Inl e \<Rightarrow> Inl e
         | Inr (remainingChunks2, _, entryChunkID, chunkCounter4) \<Rightarrow>
             (let headerChunk1 = headerChunk\<lparr>branchBehavior := Some (Jump entryChunkID)\<rparr>;
                  remainingChunks3 = remainingChunks2 @ [consequenceChunk];
                  remainingChunks4 = remainingChunks3 @ [headerChunk1]
              in Inr (remainingChunks4, Jump (chunk_id consequenceChunk), retID,
                      chunkCounter4)))"

text \<open>The destination of a jump: the field \<^verbatim>\<open>destChunkID\<close> that \<^verbatim>\<open>emitScriptStatement\<close> reads.\<close>

fun destChunkID :: "brancher \<Rightarrow> int" where
  "destChunkID (Jump d) = d"
| "destChunkID (BreakContext d) = d"
| "destChunkID (LeafExpressionBranch d f) = dest_id d"

text \<open>
  The state of the worklist loop of \<^verbatim>\<open>emitScriptStatement\<close>. The Go map \<^verbatim>\<open>finalChunks\<close> is
  an association list written with \<open>AList.update\<close> and read with \<open>map_of\<close>, so that its
  length and its keys can be computed; the two loop maps are keyed by node identity.
\<close>

record emit_state =
  chunkCounter :: int
  finalChunks :: "(int \<times> chunk) list"
  remainingChunks :: "chunk list"
  loopStatementReturnChunks :: "nat \<rightharpoonup> int"
  loopStatementOriginChunks :: "nat \<rightharpoonup> int"

text \<open>
  The scan \<^verbatim>\<open>for _, stmt := range curChunk.statements\<close> over the leading plain commands: it
  returns \<^verbatim>\<open>shouldContinue\<close> and the index \<^verbatim>\<open>i\<close> at which it stopped.
\<close>

fun scanCommands :: "statement list \<Rightarrow> nat \<Rightarrow> bool \<times> nat" where
  "scanCommands [] i = (False, i)"
| "scanCommands (CommandStatement name args # rest) i =
     (if name = ''end'' \<or> name = ''return'' then (True, i) else scanCommands rest (i + 1))"
| "scanCommands (stmt # rest) i = (False, i)"

definition finalize :: "chunk \<Rightarrow> emit_state \<Rightarrow> emit_state" where
  "finalize completeChunk st =
     st\<lparr>finalChunks := AList.update (chunk_id completeChunk) completeChunk (finalChunks st)\<rparr>"

text \<open>
  One iteration of the worklist loop, for the chunk \<open>curChunk\<close> taken from the front of the
  pending chunks (the state holds the rest).
\<close>

definition processChunk :: "chunk \<Rightarrow> emit_state \<Rightarrow> error + emit_state" where
  "processChunk curChunk st =
     (let (shouldContinue, i) = scanCommands (statements curChunk) 0
      in if shouldContinue then
           Inr (finalize \<lparr>chunk_id = chunk_id curChunk, returnID = -1,
                  statements = take i (statements curChunk), branchBehavior = None\<rparr> st)
         else if i = length (statements curChunk) then Inr (finalize curChunk st)
         else
           (case statements curChunk ! i of
              IfStatement consequence elifConsequences elseConsequence \<Rightarrow>
                (case createIfStatementChunks consequence elifConsequences elseConsequence i
                        curChunk (remainingChunks st) (chunkCounter st) of
                   Inl e \<Rightarrow> Inl e
                 | Inr (newRemainingChunks, ifBranch, counter1) \<Rightarrow>
                     Inr (finalize \<lparr>chunk_id = chunk_id curChunk, returnID = returnID curChunk,
                            statements = take i (statements curChunk),
                            branchBehavior = Some ifBranch\<rparr>
                          (st\<lparr>chunkCounter := counter1,
                              remainingChunks := newRemainingChunks\<rparr>)))
            | WhileStatement node consequence \<Rightarrow>
                (case createWhileStatementChunks consequence i curChunk (remainingChunks st)
                        (chunkCounter st) of
                   Inl e \<Rightarrow> Inl e
                 | Inr (newRemainingChunks, jump, retID, counter1) \<Rightarrow>
                     Inr ((finalize \<lparr>chunk_id = chunk_id curChunk, returnID = returnID curChunk,
                            statements = take i (statements curChunk),
                            branchBehavior = Some jump\<rparr>
                          (st\<lparr>chunkCounter := counter1,
                              remainingChunks := newRemainingChunks\<rparr>))
                          \<lparr>loopStatementReturnChunks :=
                             (loopStatementReturnChunks st)(node \<mapsto> retID),
                           loopStatementOriginChunks :=
                             (loopStatementOriginChunks st)(node \<mapsto> destChunkID jump)\<rparr>))
            | DoWhileStatement node consequence \<Rightarrow>
                (case createDoWhileStatementChunks consequence i curChunk (remainingChunks st)
                        (chunkCounter st) of
                   Inl e \<Rightarrow> Inl e
                 | Inr (newRemainingChunks, jump, retID, counter1) \<Rightarrow>
                     Inr ((finalize \<lparr>chunk_id = chunk_id curChunk, returnID = returnID curChunk,
                            statements = take i (statements curChunk),
                            branchBehavior = Some jump\<rparr>
                          (st\<lparr>chunkCounter := counter1,
                              remainingChunks := newRemainingChunks\<rparr>))
                          \<lparr>loopStatementReturnChunks :=
                             (loopStatementReturnChunks st)(node \<mapsto> retID),
                           loopStatementOriginChunks :=
                             (loopStatementOriginChunks st)(node \<mapsto> destChunkID jump)\<rparr>))
            | BreakStatement loopStatment \<Rightarrow>
                (case loopStatementReturnChunks st loopStatment of
                   None \<Rightarrow>
                     Inl (Panic
                       ''Could not emit 'break' statement because its return point is unknown.'')
                 | Some dest \<Rightarrow>
                     Inr (finalize \<lparr>chunk_id = chunk_id curChunk, returnID = returnID curChunk,
                            statements = take i (statements curChunk),
                            branchBehavior = Some (BreakContext dest)\<rparr> st))
            | ContinueStatement loopStatment \<Rightarrow>
                (case loopStatementOriginChunks st loopStatment of
                   None \<Rightarrow>
                     Inl (Panic
                       ''Could not emit 'continue' statement because its return point is unknown.'')
                 | Some dest \<Rightarrow>
                     Inr (finalize \<lparr>chunk_id = chunk_id curChunk, returnID = returnID curChunk,
                            statements = take i (statements curChunk),
                            branchBehavior = Some (BreakContext dest)\<rparr> st))
            | _ \<Rightarrow>
                Inr (finalize \<lparr>chunk_id = chunk_id curChunk, returnID = returnID curChunk,
                       statements = take i (statements curChunk), branchBehavior = None\<rparr> st)))"



section \<open>Termination of the worklist loop\<close>

text \<open>
  Every chunk that the loop puts on the worklist is charged to the statement that caused it:
  \<open>expressionChunks\<close> bounds the chunks of a condition, \<open>statementWeight\<close> the chunks that
  processing a statement may add, and a pending chunk weighs one more than its statements.
\<close>

fun expressionChunks :: "boolean_expression \<Rightarrow> nat" where
  "expressionChunks (OperatorExpression e) = 1"
| "expressionChunks (BinaryExpression l t r) = 1 + expressionChunks l + expressionChunks r"

fun statementWeight :: "statement \<Rightarrow> nat" where
  "statementWeight (IfStatement c elifs els) =
     2 + expressionChunks (fst c) + sum_list (map statementWeight (snd c))
       + sum_list (map (\<lambda>e. 1 + expressionChunks (fst e) + sum_list (map statementWeight (snd e))) elifs)
       + (case els of None \<Rightarrow> 0 | Some b \<Rightarrow> 1 + sum_list (map statementWeight b))"
| "statementWeight (WhileStatement n c) = 3 + expressionChunks (fst c) + sum_list (map statementWeight (snd c))"
| "statementWeight (DoWhileStatement n c) = 3 + expressionChunks (fst c) + sum_list (map statementWeight (snd c))"
| "statementWeight _ = 0"

definition chunkWeight :: "chunk \<Rightarrow> nat" where
  "chunkWeight c = 1 + sum_list (map statementWeight (statements c))"

definition pendingWeight :: "chunk list \<Rightarrow> nat" where
  "pendingWeight cs = sum_list (map chunkWeight cs)"

lemma pendingWeight_append [simp]: "pendingWeight (xs @ ys) = pendingWeight xs + pendingWeight ys"
  by (simp add: pendingWeight_def)

lemma pendingWeight_Cons [simp]: "pendingWeight (x # xs) = chunkWeight x + pendingWeight xs"
  by (simp add: pendingWeight_def)

lemma pendingWeight_Nil [simp]: "pendingWeight [] = 0"
  by (simp add: pendingWeight_def)

text \<open>
  \<open>grows rem cc rem' cc' w\<close>: the pending chunks \<open>rem'\<close> extend \<open>rem\<close> by chunks whose ids are
  exactly the counter values after \<open>cc\<close> up to \<open>cc'\<close>, each used once, of total weight at most
  \<open>w\<close>.
\<close>

definition grows :: "chunk list \<Rightarrow> int \<Rightarrow> chunk list \<Rightarrow> int \<Rightarrow> nat \<Rightarrow> bool" where
  "grows rem cc rem' cc' w \<longleftrightarrow>
     cc \<le> cc' \<and> (\<exists>new. rem' = rem @ new \<and> distinct (map chunk_id new)
        \<and> set (map chunk_id new) = {cc<..cc'} \<and> pendingWeight new \<le> w)"

lemma grows_refl: "grows rem cc rem cc 0"
  by (simp add: grows_def)

lemma grows_mono: "grows rem cc rem' cc' w \<Longrightarrow> w \<le> w' \<Longrightarrow> grows rem cc rem' cc' w'"
  by (auto simp: grows_def)

lemma grows_trans:
  assumes "grows a c b d w1" and "grows b d e f w2"
  shows "grows a c e f (w1 + w2)"
proof -
  from assms(1) obtain n1 where n1: "c \<le> d" "b = a @ n1" "distinct (map chunk_id n1)"
    "set (map chunk_id n1) = {c<..d}" "pendingWeight n1 \<le> w1"
    by (auto simp: grows_def)
  from assms(2) obtain n2 where n2: "d \<le> f" "e = b @ n2" "distinct (map chunk_id n2)"
    "set (map chunk_id n2) = {d<..f}" "pendingWeight n2 \<le> w2"
    by (auto simp: grows_def)
  have "set (map chunk_id (n1 @ n2)) = {c<..f}"
    using n1(1,4) n2(1,4) by auto
  moreover have "distinct (map chunk_id (n1 @ n2))"
    using n1(3,4) n2(3,4) by auto
  moreover have "pendingWeight (n1 @ n2) \<le> w1 + w2"
    using n1(5) n2(5) by simp
  ultimately show ?thesis
    unfolding grows_def using n1(1,2) n2(1,2)
    by (intro conjI exI[of _ "n1 @ n2"]) auto
qed

lemma grows_single:
  "chunk_id c = cc + 1 \<Longrightarrow> grows rem cc (rem @ [c]) (cc + 1) (chunkWeight c)"
  unfolding grows_def by (intro conjI exI[of _ "[c]"]) auto

lemma grows_late:
  assumes "grows rem (cc + 1) rem' cc' w" and "chunk_id c = cc + 1"
  shows "grows rem cc (rem' @ [c]) cc' (w + chunkWeight c)"
proof -
  from assms(1) obtain n1 where n1: "cc + 1 \<le> cc'" "rem' = rem @ n1" "distinct (map chunk_id n1)"
    "set (map chunk_id n1) = {cc + 1<..cc'}" "pendingWeight n1 \<le> w"
    by (auto simp: grows_def)
  have "set (map chunk_id (n1 @ [c])) = {cc<..cc'}"
    using n1(1,4) assms(2) by auto
  moreover have "distinct (map chunk_id (n1 @ [c]))"
    using n1(3,4) assms(2) by auto
  moreover have "pendingWeight (n1 @ [c]) \<le> w + chunkWeight c"
    using n1(5) by simp
  ultimately show ?thesis
    unfolding grows_def using n1(1,2)
    by (intro conjI exI[of _ "n1 @ [c]"]) auto
qed

lemma split_grows:
  "splitBooleanExpressionChunks e cc s f rem fid = Inr (rem', l, fid', cc')
   \<Longrightarrow> grows rem cc rem' cc' (expressionChunks e)"
proof (induction e arbitrary: cc s f rem fid rem' l fid' cc')
  case (OperatorExpression x)
  then have "rem' = rem @ [\<lparr>chunk_id = cc + 1, returnID = 0, statements = [],
       branchBehavior = Some (LeafExpressionBranch (createConditionDestination s x) f)\<rparr>]"
    and "cc' = cc + 1"
    by (auto simp: Let_def)
  then show ?case
    using grows_single[of "\<lparr>chunk_id = cc + 1, returnID = 0, statements = [],
       branchBehavior = Some (LeafExpressionBranch (createConditionDestination s x) f)\<rparr>" cc rem]
    by (simp add: chunkWeight_def)
next
  case (BinaryExpression e1 t e2)
  show ?case
  proof (cases "t = AND \<or> t = OR")
    case False
    with BinaryExpression.prems show ?thesis by (auto intro: grows_mono[OF grows_refl])
  next
    case True
    with BinaryExpression.prems obtain s1 f1 r2 l2 fid2 cc2 r3 l3 c where
      a: "splitBooleanExpressionChunks e1 (cc + 1) s1 f1 rem fid = Inr (r2, l2, fid2, cc2)"
      and b: "splitBooleanExpressionChunks e2 cc2 s f r2 fid2 = Inr (r3, l3, fid', cc')"
      and c: "rem' = r3 @ [c]" "chunk_id c = cc + 1" "statements c = []"
      by (auto simp: Let_def split: sum.splits option.splits if_splits)
    have "grows rem (cc + 1) r3 cc' (expressionChunks e1 + expressionChunks e2)"
      using grows_trans[OF BinaryExpression.IH(1)[OF a] BinaryExpression.IH(2)[OF b]] .
    from grows_late[OF this c(2)] c(1,3) show ?thesis
      by (simp add: chunkWeight_def add.commute add.left_commute)
  qed
qed


definition bodyWeight :: "statement list \<Rightarrow> nat" where
  "bodyWeight b = 1 + sum_list (map statementWeight b)"

lemma elifChunksLoop_grows:
  "elifChunksLoop elifs ret cc rem ecs = (cc', rem', ecs')
   \<Longrightarrow> grows rem cc rem' cc' (sum_list (map (\<lambda>e. bodyWeight (snd e)) elifs))
       \<and> length ecs' = length ecs + length elifs"
proof (induction elifs arbitrary: cc rem ecs)
  case Nil
  then show ?case by (simp add: grows_refl)
next
  case (Cons e elifs)
  let ?c = "\<lparr>chunk_id = cc + 1, returnID = ret, statements = snd e, branchBehavior = None\<rparr>"
  from Cons.prems have "elifChunksLoop elifs ret (cc + 1) (rem @ [?c]) (ecs @ [?c]) = (cc', rem', ecs')"
    by (simp add: Let_def)
  from Cons.IH[OF this] grows_single[of ?c cc rem]
  show ?case
    using grows_trans[of rem cc "rem @ [?c]" "cc + 1" "chunkWeight ?c" rem' cc']
    by (simp add: chunkWeight_def bodyWeight_def)
qed

lemma elifStitchLoop_grows:
  "elifStitchLoop n elifs ecs els ret rem prev cc = Inr (rem', prev', cc')
   \<Longrightarrow> n \<le> length elifs
   \<Longrightarrow> grows rem cc rem' cc' (sum_list (map (\<lambda>e. expressionChunks (fst e)) (take n elifs)))"
proof (induction n arbitrary: rem prev cc)
  case 0
  then show ?case by (simp add: grows_refl)
next
  case (Suc n)
  from Suc.prems(1) obtain fl r1 l1 e1 c1 where
    a: "splitBooleanExpressionChunks (fst (elifs ! n)) cc (chunk_id (ecs ! n)) fl rem (-1)
          = Inr (r1, l1, e1, c1)"
    and b: "elifStitchLoop n elifs ecs els ret r1 e1 c1 = Inr (rem', prev', cc')"
    by (auto simp: Let_def split: sum.splits)
  from Suc.prems(2) have n: "n \<le> length elifs" "n < length elifs" by simp_all
  have "take (Suc n) elifs = take n elifs @ [elifs ! n]"
    using n(2) by (simp add: take_Suc_conv_app_nth)
  with grows_trans[OF split_grows[OF a] Suc.IH[OF b n(1)]]
  show ?case by (simp add: add.commute)
qed

lemma createIfStatementChunks_grows:
  assumes "createIfStatementChunks c elifs els i cur rem cc = Inr (rem', br, cc')"
  shows "grows rem cc rem' cc'
           (bodyWeight (drop (Suc i) (statements cur)) + statementWeight (IfStatement c elifs els) - 1)"
proof -
  let ?k = "\<lparr>chunk_id = cc + 1, returnID = returnID cur,
             statements = drop (i + 1) (statements cur), branchBehavior = None\<rparr>"
  let ?q = "\<lparr>chunk_id = cc + 1 + 1, returnID = cc + 1, statements = snd c, branchBehavior = None\<rparr>"
  obtain cc3 rem3 ecs where el: "elifChunksLoop elifs (cc + 1) (cc + 1 + 1) ((rem @ [?k]) @ [?q]) [] = (cc3, rem3, ecs)"
    by (metis prod_cases3)
  define ec where "ec = (case els of None \<Rightarrow> None
       | Some b \<Rightarrow> Some \<lparr>chunk_id = cc3 + 1, returnID = cc + 1, statements = b, branchBehavior = None\<rparr>)"
  define cc4 where "cc4 = (case els of None \<Rightarrow> cc3 | Some b \<Rightarrow> cc3 + 1)"
  define rem4 where "rem4 = (case els of None \<Rightarrow> rem3
       | Some b \<Rightarrow> rem3 @ [\<lparr>chunk_id = cc3 + 1, returnID = cc + 1, statements = b, branchBehavior = None\<rparr>])"
  from assms el obtain rem5 prev cc5 fl l6 where
    st: "elifStitchLoop (length ecs) elifs ecs ec (cc + 1) rem4 (-1) cc4 = Inr (rem5, prev, cc5)"
    and sp: "splitBooleanExpressionChunks (fst c) cc5 (cc + 1 + 1) fl rem5 (-1) = Inr (rem', l6, destChunkID br, cc')"
    unfolding createIfStatementChunks_def splitChunkForBranch_def ec_def cc4_def rem4_def
    by (auto simp: Let_def split: sum.splits option.splits)
  have g1: "grows rem cc (rem @ [?k]) (cc + 1) (bodyWeight (drop (Suc i) (statements cur)))"
    using grows_single[of ?k cc rem] by (simp add: chunkWeight_def bodyWeight_def)
  have g2: "grows (rem @ [?k]) (cc + 1) ((rem @ [?k]) @ [?q]) (cc + 1 + 1) (bodyWeight (snd c))"
    using grows_single[of ?q "cc + 1" "rem @ [?k]"] by (simp add: chunkWeight_def bodyWeight_def)
  from elifChunksLoop_grows[OF el]
  have g3: "grows ((rem @ [?k]) @ [?q]) (cc + 1 + 1) rem3 cc3 (sum_list (map (\<lambda>e. bodyWeight (snd e)) elifs))"
    and len: "length ecs = length elifs" by simp_all
  have g4: "grows rem3 cc3 rem4 cc4 (case els of None \<Rightarrow> 0 | Some b \<Rightarrow> bodyWeight b)"
  proof (cases els)
    case None
    then show ?thesis by (simp add: rem4_def cc4_def grows_refl)
  next
    case (Some b)
    then show ?thesis
      using grows_single[of "\<lparr>chunk_id = cc3 + 1, returnID = cc + 1, statements = b, branchBehavior = None\<rparr>" cc3 rem3]
      by (simp add: rem4_def cc4_def chunkWeight_def bodyWeight_def)
  qed
  from elifStitchLoop_grows[OF st] len
  have g5: "grows rem4 cc4 rem5 cc5 (sum_list (map (\<lambda>e. expressionChunks (fst e)) elifs))" by simp
  note g6 = split_grows[OF sp]
  note all = grows_trans[OF grows_trans[OF grows_trans[OF grows_trans[OF grows_trans[OF g1 g2] g3] g4] g5] g6]
  have "sum_list (map (\<lambda>e. 1 + expressionChunks (fst e) + sum_list (map statementWeight (snd e))) elifs)
     = sum_list (map (\<lambda>e. bodyWeight (snd e)) elifs) + sum_list (map (\<lambda>e. expressionChunks (fst e)) elifs)"
    by (induction elifs) (auto simp: bodyWeight_def)
  then show ?thesis
    by (intro grows_mono[OF all]) (auto simp: bodyWeight_def split: option.splits)
qed


lemma createWhileStatementChunks_grows:
  assumes "createWhileStatementChunks c i cur rem cc = Inr (rem', br, ret, cc')"
  shows "grows rem cc rem' cc'
           (bodyWeight (drop (Suc i) (statements cur)) + statementWeight (WhileStatement n c) - 1)"
proof -
  let ?k = "\<lparr>chunk_id = cc + 1, returnID = returnID cur,
             statements = drop (i + 1) (statements cur), branchBehavior = None\<rparr>"
  let ?q = "\<lparr>chunk_id = cc + 1 + 1 + 1, returnID = cc + 1 + 1, statements = snd c, branchBehavior = None\<rparr>"
  from assms obtain rem2 l2 entry where
    sp: "splitBooleanExpressionChunks (fst c) (cc + 1 + 1 + 1) (cc + 1 + 1 + 1) (cc + 1) (rem @ [?k]) (-1)
           = Inr (rem2, l2, entry, cc')"
    and r: "rem' = (rem2 @ [?q]) @ [\<lparr>chunk_id = cc + 1 + 1, returnID = cc + 1, statements = [],
             branchBehavior = Some (Jump entry)\<rparr>]"
    unfolding createWhileStatementChunks_def splitChunkForBranch_def
    by (auto simp: Let_def split: sum.splits)
  have g1: "grows rem cc (rem @ [?k]) (cc + 1) (bodyWeight (drop (Suc i) (statements cur)))"
    using grows_single[of ?k cc rem] by (simp add: chunkWeight_def bodyWeight_def)
  have g2: "grows (rem @ [?k]) (cc + 1 + 1) (rem2 @ [?q]) cc' (expressionChunks (fst c) + chunkWeight ?q)"
    using grows_late[OF split_grows[OF sp], of ?q] by simp
  have g3: "grows (rem @ [?k]) (cc + 1) rem' cc' (expressionChunks (fst c) + chunkWeight ?q + 1)"
    using grows_late[OF g2, of "\<lparr>chunk_id = cc + 1 + 1, returnID = cc + 1, statements = [],
             branchBehavior = Some (Jump entry)\<rparr>"] r by (simp add: chunkWeight_def)
  show ?thesis
    by (intro grows_mono[OF grows_trans[OF g1 g3]]) (simp add: chunkWeight_def bodyWeight_def)
qed

lemma createDoWhileStatementChunks_grows:
  assumes "createDoWhileStatementChunks c i cur rem cc = Inr (rem', br, ret, cc')"
  shows "grows rem cc rem' cc'
           (bodyWeight (drop (Suc i) (statements cur)) + statementWeight (DoWhileStatement n c) - 1)"
proof -
  let ?k = "\<lparr>chunk_id = cc + 1, returnID = returnID cur,
             statements = drop (i + 1) (statements cur), branchBehavior = None\<rparr>"
  let ?q = "\<lparr>chunk_id = cc + 1 + 1 + 1, returnID = cc + 1 + 1, statements = snd c, branchBehavior = None\<rparr>"
  from assms obtain rem2 l2 entry where
    sp: "splitBooleanExpressionChunks (fst c) (cc + 1 + 1 + 1) (cc + 1 + 1 + 1) (cc + 1) (rem @ [?k]) (-1)
           = Inr (rem2, l2, entry, cc')"
    and r: "rem' = (rem2 @ [?q]) @ [\<lparr>chunk_id = cc + 1 + 1, returnID = cc + 1, statements = [],
             branchBehavior = Some (Jump entry)\<rparr>]"
    unfolding createDoWhileStatementChunks_def splitChunkForBranch_def
    by (auto simp: Let_def split: sum.splits)
  have g1: "grows rem cc (rem @ [?k]) (cc + 1) (bodyWeight (drop (Suc i) (statements cur)))"
    using grows_single[of ?k cc rem] by (simp add: chunkWeight_def bodyWeight_def)
  have g2: "grows (rem @ [?k]) (cc + 1 + 1) (rem2 @ [?q]) cc' (expressionChunks (fst c) + chunkWeight ?q)"
    using grows_late[OF split_grows[OF sp], of ?q] by simp
  have g3: "grows (rem @ [?k]) (cc + 1) rem' cc' (expressionChunks (fst c) + chunkWeight ?q + 1)"
    using grows_late[OF g2, of "\<lparr>chunk_id = cc + 1 + 1, returnID = cc + 1, statements = [],
             branchBehavior = Some (Jump entry)\<rparr>"] r by (simp add: chunkWeight_def)
  show ?thesis
    by (intro grows_mono[OF grows_trans[OF g1 g3]]) (simp add: chunkWeight_def bodyWeight_def)
qed

lemma scanCommands_bounds:
  "scanCommands stmts k = (b, i) \<Longrightarrow> k \<le> i \<and> i \<le> k + length stmts"
  by (induction stmts k rule: scanCommands.induct) (auto split: if_splits)

lemma nth_weight:
  assumes "i < length stmts"
  shows "statementWeight (stmts ! i) + sum_list (map statementWeight (drop (Suc i) stmts))
           \<le> sum_list (map statementWeight stmts)"
proof -
  have "stmts = take i stmts @ (stmts ! i) # drop (Suc i) stmts"
    using assms by (rule id_take_nth_drop)
  then have "sum_list (map statementWeight stmts)
      = sum_list (map statementWeight (take i stmts)) + (statementWeight (stmts ! i)
          + sum_list (map statementWeight (drop (Suc i) stmts)))"
    by (metis list.simps(9) map_append sum_list.Cons sum_list_append)
  then show ?thesis by simp
qed

lemma processChunk_grows:
  assumes "processChunk cur st = Inr st'"
  shows "(\<exists>x. finalChunks st' = AList.update (chunk_id cur) x (finalChunks st))
           \<and> (\<exists>w. grows (remainingChunks st) (chunkCounter st) (remainingChunks st') (chunkCounter st') w
                 \<and> w < chunkWeight cur)"
proof -
  obtain b i where sc: "scanCommands (statements cur) 0 = (b, i)" by (cases "scanCommands (statements cur) 0")
  from scanCommands_bounds[OF sc] have ile: "i \<le> length (statements cur)" by simp
  have g0 [simp]: "\<exists>w. grows (remainingChunks st) (chunkCounter st) (remainingChunks st) (chunkCounter st) w
     \<and> w < chunkWeight cur"
    using grows_refl[of "remainingChunks st" "chunkCounter st"] by (auto simp: chunkWeight_def)
  show ?thesis
  proof (cases "b \<or> i = length (statements cur)")
    case True
    with assms sc show ?thesis
      by (auto simp: processChunk_def finalize_def split: if_splits)
  next
    case False
    then have i: "i < length (statements cur)" and nb: "\<not> b" using ile by auto
    have wt: "bodyWeight (drop (Suc i) (statements cur)) + statementWeight (statements cur ! i) - 1
                < chunkWeight cur" if "2 \<le> statementWeight (statements cur ! i)"
      using nth_weight[OF i] that by (simp add: bodyWeight_def chunkWeight_def)
    show ?thesis
    proof (cases "statements cur ! i")
      case (IfStatement c elifs els)
      with assms sc i nb obtain rem' br cc' x where
        cr: "createIfStatementChunks c elifs els i cur (remainingChunks st) (chunkCounter st) = Inr (rem', br, cc')"
        and s': "remainingChunks st' = rem'" "chunkCounter st' = cc'"
           "finalChunks st' = AList.update (chunk_id cur) x (finalChunks st)"
        by (auto simp: processChunk_def finalize_def split: sum.splits)
      from createIfStatementChunks_grows[OF cr] wt s' IfStatement show ?thesis by auto
    next
      case (WhileStatement n c)
      with assms sc i nb obtain rem' br ret cc' x where
        cr: "createWhileStatementChunks c i cur (remainingChunks st) (chunkCounter st) = Inr (rem', br, ret, cc')"
        and s': "remainingChunks st' = rem'" "chunkCounter st' = cc'"
           "finalChunks st' = AList.update (chunk_id cur) x (finalChunks st)"
        by (auto simp: processChunk_def finalize_def split: sum.splits)
      from createWhileStatementChunks_grows[OF cr, of n] wt s' WhileStatement show ?thesis by auto
    next
      case (DoWhileStatement n c)
      with assms sc i nb obtain rem' br ret cc' x where
        cr: "createDoWhileStatementChunks c i cur (remainingChunks st) (chunkCounter st) = Inr (rem', br, ret, cc')"
        and s': "remainingChunks st' = rem'" "chunkCounter st' = cc'"
           "finalChunks st' = AList.update (chunk_id cur) x (finalChunks st)"
        by (auto simp: processChunk_def finalize_def split: sum.splits)
      from createDoWhileStatementChunks_grows[OF cr, of n] wt s' DoWhileStatement show ?thesis by auto
    qed (use assms sc i nb in \<open>auto simp: processChunk_def finalize_def split: option.splits\<close>)
  qed
qed

text \<open>
  The worklist loop \<^verbatim>\<open>for len(remainingChunks) > 0\<close> of \<^verbatim>\<open>emitScriptStatement\<close>: it takes
  the first pending chunk and processes it, until none is left or an iteration panics.
\<close>

function emitLoop :: "emit_state \<Rightarrow> error + emit_state" where
  "emitLoop st =
     (case remainingChunks st of
        [] \<Rightarrow> Inr st
      | curChunk # rest \<Rightarrow>
          (case processChunk curChunk (st\<lparr>remainingChunks := rest\<rparr>) of
             Inl e \<Rightarrow> Inl e
           | Inr st' \<Rightarrow> emitLoop st'))"
  by pat_completeness auto
termination
proof (relation "measure (\<lambda>st. pendingWeight (remainingChunks st))")
  show "wf (measure (\<lambda>st. pendingWeight (remainingChunks st)))" by simp
next
  fix st :: emit_state and curChunk rest st'
  assume r: "remainingChunks st = curChunk # rest"
    and p: "processChunk curChunk (st\<lparr>remainingChunks := rest\<rparr>) = Inr st'"
  from processChunk_grows[OF p] obtain w where
    "grows rest (chunkCounter st) (remainingChunks st') (chunkCounter st') w" "w < chunkWeight curChunk"
    by auto
  then have "pendingWeight (remainingChunks st') < pendingWeight (curChunk # rest)"
    by (auto simp: grows_def)
  with r show "(st', st) \<in> measure (\<lambda>st. pendingWeight (remainingChunks st))" by simp
qed

declare emitLoop.simps [simp del]





section \<open>The chunk builder as a whole\<close>

text \<open>
  \<^verbatim>\<open>emitScriptStatement\<close> starts the worklist with chunk 0, which holds the whole body and
  returns to \<open>-1\<close>, with the counter at 0 and empty maps.
\<close>

definition initialState :: "statement list \<Rightarrow> emit_state" where
  "initialState body =
     \<lparr>chunkCounter = 0, finalChunks = [],
      remainingChunks = [\<lparr>chunk_id = 0, returnID = -1, statements = body, branchBehavior = None\<rparr>],
      loopStatementReturnChunks = Map.empty, loopStatementOriginChunks = Map.empty\<rparr>"

definition buildChunks :: "statement list \<Rightarrow> error + emit_state" where
  "buildChunks body = emitLoop (initialState body)"


text \<open>
  A plain command is a command statement that the scan steps over: one named neither
  \<^verbatim>\<open>end\<close> nor \<^verbatim>\<open>return\<close>.
\<close>

fun plainCommand :: "statement \<Rightarrow> bool" where
  "plainCommand (CommandStatement name args) = (name \<noteq> ''end'' \<and> name \<noteq> ''return'')"
| "plainCommand _ = False"


text \<open>
  The linearizer in the order the specification words it, for comparison with
  \<open>splitBooleanExpressionChunks\<close>: the right operand first, with the given destinations, then
  a fresh intermediate chunk that jumps to the right operand's entry, then the left operand.
  It returns the chunks, the id of the entry chunk and the counter.
\<close>

fun linearizeRightFirst ::
  "boolean_expression \<Rightarrow> int \<Rightarrow> int \<Rightarrow> int \<Rightarrow> chunk list \<Rightarrow> error + (chunk list \<times> int \<times> int)" where
  "linearizeRightFirst (OperatorExpression leaf) counter0 success failure chunks =
     Inr (chunks @ [\<lparr>chunk_id = counter0 + 1, returnID = 0, statements = [],
            branchBehavior = Some (LeafExpressionBranch
              \<lparr>dest_id = success, operatorExpression = leaf\<rparr> failure)\<rparr>],
          counter0 + 1, counter0 + 1)"
| "linearizeRightFirst (BinaryExpression left operator right) counter0 success failure chunks =
     (if operator = AND then
        (case linearizeRightFirst right counter0 success failure chunks of
           Inl e \<Rightarrow> Inl e
         | Inr (chunks1, rightEntry, counter1) \<Rightarrow>
             linearizeRightFirst left (counter1 + 1) (counter1 + 1) failure
               (chunks1 @ [\<lparr>chunk_id = counter1 + 1, returnID = 0, statements = [],
                             branchBehavior = Some (Jump rightEntry)\<rparr>]))
      else if operator = OR then
        (case linearizeRightFirst right counter0 success failure chunks of
           Inl e \<Rightarrow> Inl e
         | Inr (chunks1, rightEntry, counter1) \<Rightarrow>
             linearizeRightFirst left (counter1 + 1) success (counter1 + 1)
               (chunks1 @ [\<lparr>chunk_id = counter1 + 1, returnID = 0, statements = [],
                             branchBehavior = Some (Jump rightEntry)\<rparr>]))
      else Inl (Panic ''malformed boolean expression''))"



section \<open>Properties of the linearizer and of one iteration\<close>

lemma scan_prefix:
  "list_all plainCommand pre \<Longrightarrow> scanCommands (pre @ rest) k = scanCommands rest (k + length pre)"
proof (induction pre arbitrary: k)
  case Nil
  then show ?case by simp
next
  case (Cons s pre)
  then show ?case by (cases s) auto
qed

lemma firstID_kept:
  "splitBooleanExpressionChunks e cc s f rem fid = Inr (rem', l, fid', cc')
   \<Longrightarrow> fid \<noteq> -1 \<Longrightarrow> fid' = fid"
proof (induction e arbitrary: cc s f rem fid rem' l fid' cc')
  case (OperatorExpression x)
  then show ?case by (auto simp: Let_def)
next
  case (BinaryExpression e1 t e2)
  show ?case
  proof (cases "t = AND \<or> t = OR")
    case False
    with BinaryExpression.prems show ?thesis by auto
  next
    case True
    with BinaryExpression.prems obtain s1 f1 r2 l2 fid2 cc2 r3 l3 where
      a: "splitBooleanExpressionChunks e1 (cc + 1) s1 f1 rem fid = Inr (r2, l2, fid2, cc2)"
      and b: "splitBooleanExpressionChunks e2 cc2 s f r2 fid2 = Inr (r3, l3, fid', cc')"
      by (auto simp: Let_def split: sum.splits option.splits if_splits)
    from BinaryExpression.IH(1)[OF a BinaryExpression.prems(2)]
      BinaryExpression.IH(2)[OF b] BinaryExpression.prems(2)
    show ?thesis by simp
  qed
qed

lemma entry_is_link:
  "splitBooleanExpressionChunks e cc s f rem (-1) = Inr (rem', Some c, fid', cc')
   \<Longrightarrow> 0 \<le> cc \<Longrightarrow> fid' = chunk_id c \<and> cc < chunk_id c"
proof (induction e arbitrary: cc s f rem rem' c fid' cc')
  case (OperatorExpression x)
  then show ?case by (auto simp: Let_def)
next
  case (BinaryExpression e1 t e2)
  show ?case
  proof (cases "t = AND \<or> t = OR")
    case False
    with BinaryExpression.prems show ?thesis by auto
  next
    case True
    with BinaryExpression.prems obtain s1 f1 r2 fid2 cc2 r3 l3 where
      a: "splitBooleanExpressionChunks e1 (cc + 1) s1 f1 rem (-1) = Inr (r2, Some c, fid2, cc2)"
      and b: "splitBooleanExpressionChunks e2 cc2 s f r2 fid2 = Inr (r3, l3, fid', cc')"
      by (auto simp: Let_def split: sum.splits option.splits if_splits)
    from BinaryExpression.IH(1)[OF a] BinaryExpression.prems(2)
    have c: "fid2 = chunk_id c" "cc + 1 < chunk_id c" by auto
    then have "fid2 \<noteq> -1" using BinaryExpression.prems(2) by auto
    from firstID_kept[OF b this] c show ?thesis by simp
  qed
qed


text \<open>
  C4 (as amended). For an AND expression handed to the linearizer with destinations
  (success, failure), with any counter and any \<open>firstID\<close>, when the call returns: the id of a
  fresh intermediate success chunk is taken first; the left operand is linearized first, with
  that fresh id as its success destination, the original failure destination and the given
  \<open>firstID\<close>; the right operand is linearized second, with (success, failure), going on from
  the chunks, the counter and the \<open>firstID\<close> that the left operand returned; the intermediate
  chunk is appended last and jumps unconditionally to the entry chunk that the right operand
  returned; the returned chunk is the one that the left operand returned. The returned id is
  the given \<open>firstID\<close> when that is not \<open>-1\<close>; for a call with \<open>firstID = -1\<close> and a counter
  that is not negative it is the id of the left operand's entry chunk, when the left operand
  returned one.
\<close>

theorem and_linearized_left_first:
  assumes "splitBooleanExpressionChunks (BinaryExpression left AND right) counter0
             successChunkID failureChunkID pending firstID = Inr (chunks, link, entry, counter9)"
  shows "\<exists>chunks1 firstID1 counter1 chunks2 rightLink.
           splitBooleanExpressionChunks left (counter0 + 1) (counter0 + 1)
               failureChunkID pending firstID = Inr (chunks1, link, firstID1, counter1)
         \<and> splitBooleanExpressionChunks right counter1 successChunkID failureChunkID
               chunks1 firstID1 = Inr (chunks2, Some rightLink, entry, counter9)
         \<and> chunks = chunks2 @ [\<lparr>chunk_id = counter0 + 1, returnID = 0, statements = [],
               branchBehavior = Some (Jump (chunk_id rightLink))\<rparr>]
         \<and> (firstID \<noteq> -1 \<longrightarrow> entry = firstID)
         \<and> (firstID = -1 \<and> 0 \<le> counter0
               \<longrightarrow> (\<forall>leftLink. link = Some leftLink \<longrightarrow> entry = chunk_id leftLink))"
proof -
  from assms obtain chunks1 firstID1 counter1 chunks2 rightLink where
    a: "splitBooleanExpressionChunks left (counter0 + 1) (counter0 + 1)
               failureChunkID pending firstID = Inr (chunks1, link, firstID1, counter1)"
    and b: "splitBooleanExpressionChunks right counter1 successChunkID failureChunkID
               chunks1 firstID1 = Inr (chunks2, Some rightLink, entry, counter9)"
    and c: "chunks = chunks2 @ [\<lparr>chunk_id = counter0 + 1, returnID = 0, statements = [],
               branchBehavior = Some (Jump (chunk_id rightLink))\<rparr>]"
    by (auto simp: Let_def split: sum.splits option.splits)
  have k: "entry = firstID" if "firstID \<noteq> -1"
  proof -
    from firstID_kept[OF a that] have "firstID1 = firstID" .
    with that have "firstID1 \<noteq> -1" by simp
    from firstID_kept[OF b this] \<open>firstID1 = firstID\<close> show ?thesis by simp
  qed
  have e: "entry = chunk_id leftLink"
    if "firstID = -1" "0 \<le> counter0" "link = Some leftLink" for leftLink
  proof -
    from a that have a': "splitBooleanExpressionChunks left (counter0 + 1) (counter0 + 1)
               failureChunkID pending (-1) = Inr (chunks1, Some leftLink, firstID1, counter1)"
      by simp
    from entry_is_link[OF a'] that(2)
    have f: "firstID1 = chunk_id leftLink" "counter0 + 1 < chunk_id leftLink" by auto
    then have "firstID1 \<noteq> -1" using that(2) by auto
    from firstID_kept[OF b this] f(1) show ?thesis by simp
  qed
  from a b c k e show ?thesis by blast
qed

theorem and_linearized_left_first_witness:
  "(\<exists>chunks1 firstID1 counter1 chunks2 rightLink.
      splitBooleanExpressionChunks (OperatorExpression ''a'') (0 + 1) (0 + 1) 20 [] (-1)
        = Inr (chunks1,
            Some \<lparr>chunk_id = 2, returnID = 0, statements = [], branchBehavior =
              Some (LeafExpressionBranch \<lparr>dest_id = 1, operatorExpression = ''a''\<rparr> 20)\<rparr>,
            firstID1, counter1)
    \<and> splitBooleanExpressionChunks (OperatorExpression ''b'') counter1 10 20 chunks1 firstID1
        = Inr (chunks2, Some rightLink, 2, 3)
    \<and> [\<lparr>chunk_id = 2, returnID = 0, statements = [], branchBehavior =
              Some (LeafExpressionBranch \<lparr>dest_id = 1, operatorExpression = ''a''\<rparr> 20)\<rparr>,
         \<lparr>chunk_id = 3, returnID = 0, statements = [], branchBehavior =
              Some (LeafExpressionBranch \<lparr>dest_id = 10, operatorExpression = ''b''\<rparr> 20)\<rparr>,
         \<lparr>chunk_id = 1, returnID = 0, statements = [], branchBehavior = Some (Jump 3)\<rparr>]
        = chunks2 @ [\<lparr>chunk_id = 0 + 1, returnID = 0, statements = [],
               branchBehavior = Some (Jump (chunk_id rightLink))\<rparr>]
    \<and> (2::int) = chunk_id \<lparr>chunk_id = 2, returnID = 0, statements = [], branchBehavior =
              Some (LeafExpressionBranch \<lparr>dest_id = 1, operatorExpression = ''a''\<rparr> 20)\<rparr>)
   \<and> (\<exists>chunks1 firstID1 counter1 chunks2 rightLink.
      splitBooleanExpressionChunks (OperatorExpression ''b'') (2 + 1) (2 + 1) 20 [] 2
        = Inr (chunks1,
            Some \<lparr>chunk_id = 4, returnID = 0, statements = [], branchBehavior =
              Some (LeafExpressionBranch \<lparr>dest_id = 3, operatorExpression = ''b''\<rparr> 20)\<rparr>,
            firstID1, counter1)
    \<and> splitBooleanExpressionChunks (OperatorExpression ''c'') counter1 10 20 chunks1 firstID1
        = Inr (chunks2, Some rightLink, 2, 5)
    \<and> [\<lparr>chunk_id = 4, returnID = 0, statements = [], branchBehavior =
              Some (LeafExpressionBranch \<lparr>dest_id = 3, operatorExpression = ''b''\<rparr> 20)\<rparr>,
         \<lparr>chunk_id = 5, returnID = 0, statements = [], branchBehavior =
              Some (LeafExpressionBranch \<lparr>dest_id = 10, operatorExpression = ''c''\<rparr> 20)\<rparr>,
         \<lparr>chunk_id = 3, returnID = 0, statements = [], branchBehavior = Some (Jump 5)\<rparr>]
        = chunks2 @ [\<lparr>chunk_id = 2 + 1, returnID = 0, statements = [],
               branchBehavior = Some (Jump (chunk_id rightLink))\<rparr>]
    \<and> (2::int) \<noteq> -1)"
proof -
  have x: "splitBooleanExpressionChunks
          (BinaryExpression (OperatorExpression ''a'') AND (OperatorExpression ''b'')) 0 10 20 [] (-1)
        = Inr ([\<lparr>chunk_id = 2, returnID = 0, statements = [], branchBehavior =
              Some (LeafExpressionBranch \<lparr>dest_id = 1, operatorExpression = ''a''\<rparr> 20)\<rparr>,
         \<lparr>chunk_id = 3, returnID = 0, statements = [], branchBehavior =
              Some (LeafExpressionBranch \<lparr>dest_id = 10, operatorExpression = ''b''\<rparr> 20)\<rparr>,
         \<lparr>chunk_id = 1, returnID = 0, statements = [], branchBehavior = Some (Jump 3)\<rparr>],
          Some \<lparr>chunk_id = 2, returnID = 0, statements = [], branchBehavior =
              Some (LeafExpressionBranch \<lparr>dest_id = 1, operatorExpression = ''a''\<rparr> 20)\<rparr>,
          2, 3)"
    by (simp add: Let_def createConditionDestination_def)
  have y: "splitBooleanExpressionChunks
          (BinaryExpression (OperatorExpression ''b'') AND (OperatorExpression ''c'')) 2 10 20 [] 2
        = Inr ([\<lparr>chunk_id = 4, returnID = 0, statements = [], branchBehavior =
              Some (LeafExpressionBranch \<lparr>dest_id = 3, operatorExpression = ''b''\<rparr> 20)\<rparr>,
         \<lparr>chunk_id = 5, returnID = 0, statements = [], branchBehavior =
              Some (LeafExpressionBranch \<lparr>dest_id = 10, operatorExpression = ''c''\<rparr> 20)\<rparr>,
         \<lparr>chunk_id = 3, returnID = 0, statements = [], branchBehavior = Some (Jump 5)\<rparr>],
          Some \<lparr>chunk_id = 4, returnID = 0, statements = [], branchBehavior =
              Some (LeafExpressionBranch \<lparr>dest_id = 3, operatorExpression = ''b''\<rparr> 20)\<rparr>,
          2, 5)"
    by (simp add: Let_def createConditionDestination_def)
  from and_linearized_left_first[OF x] and_linearized_left_first[OF y]
  show ?thesis by simp
qed


text \<open>
  On \<open>a && b\<close> with the counter at 0 the code gives the left operand chunk 2 and the right
  operand chunk 3, in that order on the worklist; linearizing the right operand first gives
  the right operand chunk 1 and the left operand chunk 3.
\<close>

theorem and_right_first_counterexample:
  "splitBooleanExpressionChunks
      (BinaryExpression (OperatorExpression ''a'') AND (OperatorExpression ''b'')) 0 10 20 [] (-1)
    = Inr ([\<lparr>chunk_id = 2, returnID = 0, statements = [], branchBehavior =
              Some (LeafExpressionBranch \<lparr>dest_id = 1, operatorExpression = ''a''\<rparr> 20)\<rparr>,
            \<lparr>chunk_id = 3, returnID = 0, statements = [], branchBehavior =
              Some (LeafExpressionBranch \<lparr>dest_id = 10, operatorExpression = ''b''\<rparr> 20)\<rparr>,
            \<lparr>chunk_id = 1, returnID = 0, statements = [], branchBehavior = Some (Jump 3)\<rparr>],
           Some \<lparr>chunk_id = 2, returnID = 0, statements = [], branchBehavior =
              Some (LeafExpressionBranch \<lparr>dest_id = 1, operatorExpression = ''a''\<rparr> 20)\<rparr>,
           2, 3)
   \<and> linearizeRightFirst
      (BinaryExpression (OperatorExpression ''a'') AND (OperatorExpression ''b'')) 0 10 20 []
    = Inr ([\<lparr>chunk_id = 1, returnID = 0, statements = [], branchBehavior =
              Some (LeafExpressionBranch \<lparr>dest_id = 10, operatorExpression = ''b''\<rparr> 20)\<rparr>,
            \<lparr>chunk_id = 2, returnID = 0, statements = [], branchBehavior = Some (Jump 1)\<rparr>,
            \<lparr>chunk_id = 3, returnID = 0, statements = [], branchBehavior =
              Some (LeafExpressionBranch \<lparr>dest_id = 2, operatorExpression = ''a''\<rparr> 20)\<rparr>],
           3, 3)"
  by (simp add: Let_def createConditionDestination_def)


text \<open>
  C8 (as amended). For a binary expression whose operator is neither AND nor OR the linearizer
  reports nothing: it returns the pending chunks, the counter and \<open>firstID\<close> as they were
  given, and no chunk.
\<close>

theorem malformed_binary_returns_nil:
  assumes "operator \<noteq> AND" and "operator \<noteq> OR"
  shows "splitBooleanExpressionChunks (BinaryExpression left operator right) counter0
           successChunkID failureChunkID pending firstID = Inr (pending, None, firstID, counter0)"
  using assms by simp

theorem malformed_binary_returns_nil_witness:
  "OtherToken ''XOR'' \<noteq> AND \<and> OtherToken ''XOR'' \<noteq> OR
   \<and> splitBooleanExpressionChunks
        (BinaryExpression (OperatorExpression ''a'') (OtherToken ''XOR'') (OperatorExpression ''b''))
        0 1 2 [] (-1) = Inr ([], None, -1, 0)"
  using malformed_binary_returns_nil[of "OtherToken ''XOR''" "OperatorExpression ''a''"
      "OperatorExpression ''b''" 0 1 2 "[]" "-1"]
  by simp


text \<open>
  At the top of a condition such an expression silently produces no chunk and the entry id
  \<open>-1\<close>; as the right operand of an AND it makes the caller read through a nil pointer.
\<close>

theorem malformed_binary_counterexample:
  "splitBooleanExpressionChunks
      (BinaryExpression (OperatorExpression ''a'') (OtherToken ''XOR'') (OperatorExpression ''b''))
      0 1 2 [] (-1) = Inr ([], None, -1, 0)
   \<and> splitBooleanExpressionChunks
      (BinaryExpression (OperatorExpression ''a'') AND
         (BinaryExpression (OperatorExpression ''b'') (OtherToken ''XOR'') (OperatorExpression ''c'')))
      0 1 2 [] (-1) = Inl NilPointerDereference"
  by (simp add: Let_def)


text \<open>
  C6. When the leading run of plain commands of the pending chunk is followed by a command
  named \<^verbatim>\<open>end\<close> or \<^verbatim>\<open>return\<close>, the iteration finalizes the chunk under its id with the
  statements before that command only, with no branch behaviour and with \<open>returnID = -1\<close>;
  the statements from that command on are dropped, and the worklist, the counter and the loop
  maps are left as they were.
\<close>

theorem terminal_command_truncates:
  assumes "statements curChunk = pre @ CommandStatement name args # post"
    and "list_all plainCommand pre"
    and "name = ''end'' \<or> name = ''return''"
  shows "processChunk curChunk st =
           Inr (st\<lparr>finalChunks := AList.update (chunk_id curChunk)
                  \<lparr>chunk_id = chunk_id curChunk, returnID = -1, statements = pre,
                     branchBehavior = None\<rparr> (finalChunks st)\<rparr>)"
proof -
  have "scanCommands (statements curChunk) 0 = (True, length pre)"
    using assms by (auto simp: scan_prefix)
  then show ?thesis
    using assms(1) by (simp add: processChunk_def finalize_def)
qed

theorem terminal_command_truncates_witness:
  "list_all plainCommand [CommandStatement ''lock'' []]
   \<and> processChunk \<lparr>chunk_id = 0, returnID = 5,
          statements = [CommandStatement ''lock'' [], CommandStatement ''end'' [],
             CommandStatement ''release'' [], BreakStatement 0],
          branchBehavior = None\<rparr> (initialState [])
     = Inr ((initialState [])\<lparr>finalChunks := AList.update 0
                  \<lparr>chunk_id = 0, returnID = -1, statements = [CommandStatement ''lock'' []],
                     branchBehavior = None\<rparr> (finalChunks (initialState []))\<rparr>)"
  using terminal_command_truncates[of "\<lparr>chunk_id = 0, returnID = 5,
          statements = [CommandStatement ''lock'' [], CommandStatement ''end'' [],
             CommandStatement ''release'' [], BreakStatement 0],
          branchBehavior = None\<rparr>" "[CommandStatement ''lock'' []]" "''end''" "[]"
          "[CommandStatement ''release'' [], BreakStatement 0]" "initialState []"]
  by simp




section \<open>Ordering the chunks\<close>

text \<open>
  The inner loop \<^verbatim>\<open>for i < len(chunks)\<close> of \<^verbatim>\<open>optimizeChunkOrder\<close>: it advances \<^verbatim>\<open>i\<close> to the
  first unvisited id below \<open>n\<close> and reports whether it found one. The Go map \<^verbatim>\<open>unvisited\<close>
  is the list of its keys.
\<close>

function scanUnvisited :: "int list \<Rightarrow> int \<Rightarrow> int \<Rightarrow> bool \<times> int" where
  "scanUnvisited unvisited n i =
     (if i < n
      then (if i \<in> set unvisited then (True, i) else scanUnvisited unvisited n (i + 1))
      else (False, i))"
  by pat_completeness auto
termination
  by (relation "measure (\<lambda>(unvisited, n, i). nat (n - i))") auto

declare scanUnvisited.simps [simp del]

text \<open>
  The outer loop \<^verbatim>\<open>for len(chunkIDs) < len(chunks)\<close>. Nothing bounds its iterations: when
  the scan finds no unvisited id the state does not change any more, and the result is
  \<open>None\<close>. The method \<^verbatim>\<open>getTailChunkID\<close> of a branch behaviour is a parameter. Reading a
  field of the chunk \<^verbatim>\<open>chunks[...]\<close> panics when the id is not a key of the map.
\<close>

partial_function (option) optimizeLoop ::
  "(brancher \<Rightarrow> int) \<Rightarrow> (int \<times> chunk) list \<Rightarrow> int list \<Rightarrow> int list \<Rightarrow> int
     \<Rightarrow> (error + int list) option" where
  "optimizeLoop getTailChunkID chunks unvisited chunkIDs i =
     (if length chunkIDs < length chunks then
        (case map_of chunks (last chunkIDs) of
           None \<Rightarrow> Some (Inl NilPointerDereference)
         | Some curChunk \<Rightarrow>
             (let nextChunkID =
                    (case branchBehavior curChunk of
                       Some b \<Rightarrow> getTailChunkID b
                     | None \<Rightarrow> returnID curChunk)
              in if nextChunkID \<noteq> -1 \<and> nextChunkID \<in> set unvisited then
                   optimizeLoop getTailChunkID chunks (removeAll nextChunkID unvisited)
                     (chunkIDs @ [nextChunkID]) i
                 else
                   (case scanUnvisited unvisited (int (length chunks)) i of
                      (found, j) \<Rightarrow>
                        if found then
                          optimizeLoop getTailChunkID chunks (removeAll j unvisited)
                            (chunkIDs @ [j]) j
                        else optimizeLoop getTailChunkID chunks unvisited chunkIDs j)))
      else Some (Inr chunkIDs))"

definition optimizeChunkOrder ::
  "(brancher \<Rightarrow> int) \<Rightarrow> (int \<times> chunk) list \<Rightarrow> (error + int list) option" where
  "optimizeChunkOrder getTailChunkID chunks =
     (if length chunks = 0 then Some (Inr [])
      else optimizeLoop getTailChunkID chunks (removeAll 0 (map fst chunks)) [0] 1)"


text \<open>
  The natural next id of a chunk: the tail id of its branch behaviour, else its return id.
\<close>

definition naturalNext :: "(brancher \<Rightarrow> int) \<Rightarrow> chunk \<Rightarrow> int" where
  "naturalNext getTailChunkID c =
     (case branchBehavior c of Some b \<Rightarrow> getTailChunkID b | None \<Rightarrow> returnID c)"

text \<open>
  \<open>fallbackLowest getTailChunkID chunks ids k\<close>: when the natural next id of the chunk at
  position \<open>k\<close> of the order \<open>ids\<close> is \<open>-1\<close> or already stands at a position up to \<open>k\<close>, the
  id at position \<open>k + 1\<close> is the lowest id of the map not at a position up to \<open>k\<close>.
\<close>

definition fallbackLowest :: "(brancher \<Rightarrow> int) \<Rightarrow> (int \<times> chunk) list \<Rightarrow> int list \<Rightarrow> nat \<Rightarrow> bool" where
  "fallbackLowest getTailChunkID chunks ids k \<longleftrightarrow>
     (case map_of chunks (ids ! k) of
        None \<Rightarrow> False
      | Some c \<Rightarrow>
          (naturalNext getTailChunkID c = -1 \<or> naturalNext getTailChunkID c \<in> set (take (Suc k) ids)
             \<longrightarrow> ids ! Suc k = Min (set (map fst chunks) - set (take (Suc k) ids))))"

lemma scanUnvisited_finds:
  assumes "set unvisited \<noteq> {}" and "\<forall>k\<in>set unvisited. i \<le> k \<and> k < n"
  shows "scanUnvisited unvisited n i = (True, Min (set unvisited))"
  using assms
proof (induction unvisited n i rule: scanUnvisited.induct)
  case (1 unvisited n i)
  from "1.prems"(1) obtain k where "k \<in> set unvisited" by (cases unvisited) auto
  with "1.prems"(2) have k: "i \<le> k" "k < n" by auto
  then have lt: "i < n" by simp
  show ?case
  proof (cases "i \<in> set unvisited")
    case True
    then have "Min (set unvisited) = i"
      using "1.prems"(2) by (intro Min_eqI) auto
    with True lt show ?thesis by (simp add: scanUnvisited.simps[of unvisited n i])
  next
    case False
    then have "\<forall>k\<in>set unvisited. i + 1 \<le> k \<and> k < n"
      using "1.prems"(2) by (metis add1_zle_eq order_le_less)
    from "1.IH"[OF lt False "1.prems"(1) this] False lt
    show ?thesis by (simp add: scanUnvisited.simps[of unvisited n i])
  qed
qed

lemma optimizeLoop_correct:
  assumes keys: "distinct (map fst chunks)" "set (map fst chunks) = {0..<int (length chunks)}"
  shows "chunkIDs \<noteq> [] \<Longrightarrow> distinct chunkIDs
    \<Longrightarrow> set chunkIDs \<union> set unvisited = set (map fst chunks)
    \<Longrightarrow> set chunkIDs \<inter> set unvisited = {}
    \<Longrightarrow> \<forall>k\<in>set unvisited. i \<le> k
    \<Longrightarrow> \<exists>ids suffix. optimizeLoop gt chunks unvisited chunkIDs i = Some (Inr ids)
          \<and> ids = chunkIDs @ suffix \<and> distinct ids \<and> set ids = set (map fst chunks)
          \<and> (\<forall>k. length chunkIDs \<le> Suc k \<and> Suc k < length ids
                 \<longrightarrow> fallbackLowest gt chunks ids k)"
proof (induction "length chunks - length chunkIDs" arbitrary: chunkIDs unvisited i rule: less_induct)
  case less
  let ?K = "set (map fst chunks)"
  have cardK: "card ?K = length chunks"
    using keys(1) distinct_card by fastforce
  have sub: "set chunkIDs \<subseteq> ?K" using less.prems(3) by auto
  have cardI: "card (set chunkIDs) = length chunkIDs"
    using less.prems(2) by (simp add: distinct_card)
  show ?case
  proof (cases "length chunkIDs < length chunks")
    case False
    have "card (set chunkIDs) \<le> card ?K"
      using sub by (intro card_mono) auto
    then have "set chunkIDs = ?K"
      using sub cardK cardI False by (intro card_subset_eq) auto
    with False less.prems(2) show ?thesis
      by (subst optimizeLoop.simps) auto
  next
    case True
    have "set chunkIDs \<noteq> ?K" using cardK cardI True by auto
    then have Une: "set unvisited \<noteq> {}" using less.prems(3) by auto
    have Ueq: "set unvisited = ?K - set chunkIDs" using less.prems(3,4) by auto
    have "last chunkIDs \<in> ?K" using less.prems(1) sub by auto
    then obtain cur where cur: "map_of chunks (last chunkIDs) = Some cur"
      by (metis map_of_eq_None_iff not_Some_eq set_map)
    define nxt where "nxt = naturalNext gt cur"
    have bound: "\<forall>k\<in>set unvisited. i \<le> k \<and> k < int (length chunks)"
      using less.prems(5) Ueq keys(2) by auto
    define x where "x = (if nxt \<noteq> -1 \<and> nxt \<in> set unvisited then nxt else Min (set unvisited))"
    define i' where "i' = (if nxt \<noteq> -1 \<and> nxt \<in> set unvisited then i else Min (set unvisited))"
    have xU: "x \<in> set unvisited" using Une by (auto simp: x_def)
    have unfold: "optimizeLoop gt chunks unvisited chunkIDs i
        = optimizeLoop gt chunks (removeAll x unvisited) (chunkIDs @ [x]) i'"
      using True cur scanUnvisited_finds[OF Une bound]
      by (subst optimizeLoop.simps) (simp add: naturalNext_def nxt_def x_def i'_def Let_def)
    have m: "length chunks - length (chunkIDs @ [x]) < length chunks - length chunkIDs"
      using True by simp
    have p1: "chunkIDs @ [x] \<noteq> []" by simp
    have p2: "distinct (chunkIDs @ [x])" using less.prems(2,4) xU by auto
    have p3: "set (chunkIDs @ [x]) \<union> set (removeAll x unvisited) = ?K"
      using less.prems(3) xU by auto
    have p4: "set (chunkIDs @ [x]) \<inter> set (removeAll x unvisited) = {}"
      using less.prems(4) by auto
    have p5: "\<forall>k\<in>set (removeAll x unvisited). i' \<le> k"
      using less.prems(5) by (auto simp: i'_def)
    from less.hyps[OF m p1 p2 p3 p4 p5] obtain ids suffix where
      r: "optimizeLoop gt chunks (removeAll x unvisited) (chunkIDs @ [x]) i' = Some (Inr ids)"
        "ids = (chunkIDs @ [x]) @ suffix" "distinct ids" "set ids = ?K"
        "\<forall>k. length (chunkIDs @ [x]) \<le> Suc k \<and> Suc k < length ids \<longrightarrow> fallbackLowest gt chunks ids k"
      by blast
    have here: "fallbackLowest gt chunks ids (length chunkIDs - 1)"
    proof -
      have l: "ids ! (length chunkIDs - 1) = last chunkIDs"
        using r(2) less.prems(1) by (simp add: nth_append last_conv_nth)
      have s: "Suc (length chunkIDs - 1) = length chunkIDs" using less.prems(1) by simp
      have t: "take (length chunkIDs) ids = chunkIDs" using r(2) by simp
      have n: "ids ! length chunkIDs = x" using r(2) by (simp add: nth_append)
      show ?thesis
        unfolding fallbackLowest_def l cur s t n
        using less.prems(4) Ueq by (auto simp: x_def nxt_def)
    qed
    have "fallbackLowest gt chunks ids k" if "length chunkIDs \<le> Suc k \<and> Suc k < length ids" for k
    proof (cases "Suc k = length chunkIDs")
      case True
      then show ?thesis using here by (metis diff_Suc_1)
    next
      case False
      with that r(5) show ?thesis by simp
    qed
    with r unfold show ?thesis by auto
  qed
qed




section \<open>Chunk ids during the worklist loop\<close>

text \<open>
  \<open>wellNumbered\<close>: the ids of the pending chunks and the keys of the final chunks are pairwise
  distinct, together they are exactly the counter values from 0 to the current counter, and
  every final chunk is stored under its own id.
\<close>

definition wellNumbered :: "emit_state \<Rightarrow> bool" where
  "wellNumbered st \<longleftrightarrow>
     0 \<le> chunkCounter st
     \<and> distinct (map chunk_id (remainingChunks st) @ map fst (finalChunks st))
     \<and> set (map chunk_id (remainingChunks st)) \<union> set (map fst (finalChunks st))
          = {0..chunkCounter st}
     \<and> list_all (\<lambda>(k, c). chunk_id c = k) (finalChunks st)"

text \<open>
  The states of the worklist loop of one script statement: the initial state, and the state
  after an iteration that does not panic.
\<close>

inductive reachable :: "statement list \<Rightarrow> emit_state \<Rightarrow> bool" for body where
  init: "reachable body (initialState body)"
| step: "reachable body st \<Longrightarrow> remainingChunks st = curChunk # rest
         \<Longrightarrow> processChunk curChunk (st\<lparr>remainingChunks := rest\<rparr>) = Inr st'
         \<Longrightarrow> reachable body st'"

lemma processChunk_final:
  assumes "processChunk cur st = Inr st'"
  shows "\<exists>x. finalChunks st' = AList.update (chunk_id cur) x (finalChunks st) \<and> chunk_id x = chunk_id cur"
proof -
  obtain b i where sc: "scanCommands (statements cur) 0 = (b, i)" by (cases "scanCommands (statements cur) 0")
  show ?thesis
  proof (cases "b \<or> i = length (statements cur)")
    case True
    with assms sc show ?thesis
      by (auto simp: processChunk_def finalize_def split: if_splits)
  next
    case False
    with assms sc show ?thesis
      by (cases "statements cur ! i")
        (auto simp: processChunk_def finalize_def split: sum.splits option.splits)
  qed
qed

lemma update_fresh: "k \<notin> fst ` set al \<Longrightarrow> AList.update k v al = al @ [(k, v)]"
  by (induction al) auto

lemma processChunk_wellNumbered:
  assumes wn: "wellNumbered st" and r: "remainingChunks st = cur # rest"
    and p: "processChunk cur (st\<lparr>remainingChunks := rest\<rparr>) = Inr st'"
  shows "wellNumbered st' \<and> chunkCounter st \<le> chunkCounter st'
         \<and> chunk_id cur \<notin> set (map fst (finalChunks st))
         \<and> length (finalChunks st') = Suc (length (finalChunks st))"
proof -
  from processChunk_final[OF p] obtain x where
    f: "finalChunks st' = AList.update (chunk_id cur) x (finalChunks st)"
    and fx: "chunk_id x = chunk_id cur"
    by auto
  from processChunk_grows[OF p] obtain w new where
    g: "chunkCounter st \<le> chunkCounter st'" "remainingChunks st' = rest @ new"
       "distinct (map chunk_id new)" "set (map chunk_id new) = {chunkCounter st<..chunkCounter st'}"
    by (auto simp: grows_def)
  from wn r have d: "distinct (chunk_id cur # map chunk_id rest @ map fst (finalChunks st))"
    and s: "insert (chunk_id cur) (set (map chunk_id rest)) \<union> set (map fst (finalChunks st))
             = {0..chunkCounter st}"
    and z: "0 \<le> chunkCounter st"
    and a: "list_all (\<lambda>(k, c). chunk_id c = k) (finalChunks st)"
    by (auto simp: wellNumbered_def)
  from d have nin: "chunk_id cur \<notin> set (map fst (finalChunks st))" by auto
  then have upd: "AList.update (chunk_id cur) x (finalChunks st) = finalChunks st @ [(chunk_id cur, x)]"
    by (intro update_fresh) simp
  have o1: "chunk_id c \<le> chunkCounter st" if "c \<in> set rest" for c
    using s that by auto
  have o2: "a \<le> chunkCounter st" if "(a, b) \<in> set (finalChunks st)" for a b
    using s that by force
  have o3: "chunk_id cur \<le> chunkCounter st"
    using s by auto
  have d': "distinct (map chunk_id (remainingChunks st') @ map fst (finalChunks st'))"
    using d g(2,3,4) o3 unfolding f upd by (auto dest: o1 o2)
  have "set (map chunk_id (remainingChunks st')) \<union> set (map fst (finalChunks st'))
          = (insert (chunk_id cur) (set (map chunk_id rest)) \<union> set (map fst (finalChunks st)))
              \<union> set (map chunk_id new)"
    unfolding f upd g(2) by auto
  also have "\<dots> = {0..chunkCounter st} \<union> {chunkCounter st<..chunkCounter st'}"
    unfolding s g(4) ..
  also have "\<dots> = {0..chunkCounter st'}"
    using z g(1) by auto
  finally have s': "set (map chunk_id (remainingChunks st')) \<union> set (map fst (finalChunks st'))
             = {0..chunkCounter st'}" .
  have a': "list_all (\<lambda>(k, c). chunk_id c = k) (finalChunks st')"
    using a fx unfolding f upd by simp
  show ?thesis
    using d' s' a' g(1) z nin unfolding wellNumbered_def f upd by simp
qed

lemma reachable_wellNumbered: "reachable body st \<Longrightarrow> wellNumbered st"
proof (induction rule: reachable.induct)
  case init
  show ?case by (simp add: wellNumbered_def initialState_def)
next
  case (step st curChunk rest st')
  from processChunk_wellNumbered[OF step.IH step.hyps(2,3)] show ?case by simp
qed

lemma emitLoop_reachable:
  "reachable body st \<Longrightarrow> emitLoop st = Inr st' \<Longrightarrow> reachable body st' \<and> remainingChunks st' = []"
proof (induction st rule: emitLoop.induct)
  case (1 st)
  show ?case
  proof (cases "remainingChunks st")
    case Nil
    with "1.prems" show ?thesis by (simp add: emitLoop.simps[of st])
  next
    case (Cons cur rest)
    with "1.prems"(2) obtain st1 where
      p: "processChunk cur (st\<lparr>remainingChunks := rest\<rparr>) = Inr st1" and l: "emitLoop st1 = Inr st'"
      by (auto simp: emitLoop.simps[of st] split: sum.splits)
    from "1.IH"[OF Cons p reachable.step[OF "1.prems"(1) Cons p] l] show ?thesis .
  qed
qed

lemma buildChunks_contiguous:
  assumes "buildChunks body = Inr st"
  shows "distinct (map fst (finalChunks st))
     \<and> set (map fst (finalChunks st)) = {0..<int (length (finalChunks st))}
     \<and> finalChunks st \<noteq> []"
proof -
  from assms emitLoop_reachable[OF reachable.init] have
    r: "reachable body st" "remainingChunks st = []" by (auto simp: buildChunks_def)
  from reachable_wellNumbered[OF r(1)] r(2) have
    w: "0 \<le> chunkCounter st" "distinct (map fst (finalChunks st))"
       "set (map fst (finalChunks st)) = {0..chunkCounter st}"
    by (auto simp: wellNumbered_def)
  have "card (set (map fst (finalChunks st))) = length (finalChunks st)"
    using w(2) distinct_card by fastforce
  with w(1,3) have "int (length (finalChunks st)) = chunkCounter st + 1" by simp
  with w show ?thesis by auto
qed





section \<open>Properties of the chunk order and of the chunk ids\<close>

text \<open>
  Modelled from the spec: the method \<^verbatim>\<open>getTailChunkID\<close> of the branch behaviours is defined
  with the chunk type, outside \<^verbatim>\<open>emitter.go\<close>. The specification gives the destination for a
  jump and for a break or continue, and the truthy destination for a conditional leaf. The
  theorems below hold for every such function; this one is used to evaluate examples.
\<close>

fun tailChunkID :: "brancher \<Rightarrow> int" where
  "tailChunkID (Jump dest) = dest"
| "tailChunkID (BreakContext dest) = dest"
| "tailChunkID (LeafExpressionBranch truthyDest falseyReturnID) = dest_id truthyDest"

lemma optimizeChunkOrder_correct:
  assumes keys: "distinct (map fst chunks)" "set (map fst chunks) = {0..<int (length chunks)}"
    and ne: "chunks \<noteq> []"
  shows "\<exists>ids. optimizeChunkOrder gt chunks = Some (Inr ids)
          \<and> distinct ids \<and> set ids = set (map fst chunks) \<and> hd ids = 0
          \<and> (\<forall>k. Suc k < length ids \<longrightarrow> fallbackLowest gt chunks ids k)"
proof -
  have z: "0 \<in> set (map fst chunks)" using keys(2) ne by auto
  have p3: "set [0] \<union> set (removeAll 0 (map fst chunks)) = set (map fst chunks)"
    using z by auto
  have p5: "\<forall>k\<in>set (removeAll 0 (map fst chunks)). 1 \<le> k"
    using keys(2) by auto
  from optimizeLoop_correct[OF keys, of "[0]" "removeAll 0 (map fst chunks)" 1 gt] p3 p5
  obtain ids suffix where
    r: "optimizeLoop gt chunks (removeAll 0 (map fst chunks)) [0] 1 = Some (Inr ids)"
       "ids = [0] @ suffix" "distinct ids" "set ids = set (map fst chunks)"
       "\<forall>k. length [0::int] \<le> Suc k \<and> Suc k < length ids \<longrightarrow> fallbackLowest gt chunks ids k"
    by auto
  then show ?thesis using ne by (auto simp: optimizeChunkOrder_def)
qed


text \<open>
  C10. For every chunk mapping whose keys are pairwise distinct and are exactly the ids
  \<open>0, ..., n - 1\<close>, where \<open>n\<close> is the number of chunks, the chunk-order optimizer terminates
  and returns an order with one entry per chunk. In its fallback scan, whenever an unvisited
  id remains and no unvisited id lies below the index at which the scan starts, the scan
  finds an unvisited id: the lowest one.
\<close>

theorem optimizer_terminates_on_contiguous_keys:
  assumes "distinct (map fst chunks)"
    and "set (map fst chunks) = {0..<int (length chunks)}"
  shows "(\<exists>ids. optimizeChunkOrder gt chunks = Some (Inr ids) \<and> length ids = length chunks)
       \<and> (set unvisited \<noteq> {} \<and> (\<forall>k\<in>set unvisited. i \<le> k \<and> k < int (length chunks))
            \<longrightarrow> scanUnvisited unvisited (int (length chunks)) i = (True, Min (set unvisited)))"
proof (cases "chunks = []")
  case True
  then show ?thesis using scanUnvisited_finds by (auto simp: optimizeChunkOrder_def)
next
  case False
  from optimizeChunkOrder_correct[OF assms False] obtain ids where
    r: "optimizeChunkOrder gt chunks = Some (Inr ids)" "distinct ids" "set ids = set (map fst chunks)"
    by blast
  have "length ids = card (set ids)" using r(2) by (simp add: distinct_card)
  also have "\<dots> = length chunks" using r(3) assms(1) distinct_card by fastforce
  finally show ?thesis using r(1) scanUnvisited_finds by blast
qed


text \<open>
  C5. For the final chunk mapping that the chunk builder returns for a script body, the
  chunk-order optimizer returns a sequence that contains every chunk id exactly once and
  starts with id 0; and at every position of the sequence, when the natural next id of the
  chunk at that position (the tail id of its branch behaviour, else its return id) is \<open>-1\<close>
  or was already visited, the id appended next is the lowest-numbered unvisited id.
\<close>

theorem optimizer_orders_every_chunk_once:
  assumes "buildChunks body = Inr st"
  shows "\<exists>ids. optimizeChunkOrder gt (finalChunks st) = Some (Inr ids)
          \<and> distinct ids \<and> set ids = set (map fst (finalChunks st)) \<and> hd ids = 0
          \<and> (\<forall>k. Suc k < length ids \<longrightarrow> fallbackLowest gt (finalChunks st) ids k)"
proof -
  from buildChunks_contiguous[OF assms] have
    "distinct (map fst (finalChunks st))"
    "set (map fst (finalChunks st)) = {0..<int (length (finalChunks st))}"
    "finalChunks st \<noteq> []" by simp_all
  then show ?thesis by (rule optimizeChunkOrder_correct)
qed


text \<open>
  C9. In every state that the compilation of one script statement reaches, for any nesting of
  if, while and do-while statements in the body, an iteration of the worklist loop never
  decreases the chunk-id counter; the id of the chunk it finalizes is not yet the id of a
  final chunk, so the final chunks grow by one entry and none is overwritten; and afterwards
  the ids of all pending and final chunks are pairwise distinct and are exactly the counter
  values from 0 to the counter.
\<close>

theorem chunk_ids_never_collide:
  assumes "reachable body st"
    and "remainingChunks st = curChunk # rest"
    and "processChunk curChunk (st\<lparr>remainingChunks := rest\<rparr>) = Inr st'"
  shows "chunkCounter st \<le> chunkCounter st'
       \<and> chunk_id curChunk \<notin> set (map fst (finalChunks st))
       \<and> length (finalChunks st') = Suc (length (finalChunks st))
       \<and> distinct (map chunk_id (remainingChunks st') @ map fst (finalChunks st'))
       \<and> set (map chunk_id (remainingChunks st')) \<union> set (map fst (finalChunks st'))
            = {0..chunkCounter st'}"
  using processChunk_wellNumbered[OF reachable_wellNumbered[OF assms(1)] assms(2,3)]
  by (simp add: wellNumbered_def)



text \<open>
  The script body \<^verbatim>\<open>do { continue } while (flag)\<close>, the final chunks that the builder
  produces for it and the state in which the worklist loop ends.
\<close>

definition doWhileContinueBody :: "statement list" where
  "doWhileContinueBody =
     [DoWhileStatement 0 (OperatorExpression ''flag'', [ContinueStatement 0])]"

definition doWhileContinueChunks :: "(int \<times> chunk) list" where
  "doWhileContinueChunks =
     [(0, \<lparr>chunk_id = 0, returnID = -1, statements = [], branchBehavior = Some (Jump 3)\<rparr>),
      (1, \<lparr>chunk_id = 1, returnID = -1, statements = [], branchBehavior = None\<rparr>),
      (4, \<lparr>chunk_id = 4, returnID = 0, statements = [], branchBehavior =
            Some (LeafExpressionBranch \<lparr>dest_id = 3, operatorExpression = ''flag''\<rparr> 1)\<rparr>),
      (3, \<lparr>chunk_id = 3, returnID = 2, statements = [],
            branchBehavior = Some (BreakContext 3)\<rparr>),
      (2, \<lparr>chunk_id = 2, returnID = 1, statements = [], branchBehavior = Some (Jump 4)\<rparr>)]"


text \<open>The definitions that evaluate the builder on a concrete body.\<close>

lemmas build_eval = buildChunks_def initialState_def emitLoop.simps processChunk_def
  createIfStatementChunks_def createWhileStatementChunks_def createDoWhileStatementChunks_def
  splitChunkForBranch_def finalize_def createConditionDestination_def Let_def


text \<open>
  C1. For the script body \<^verbatim>\<open>do { continue } while (flag)\<close> the builder records chunk 3, the
  body chunk of the loop, as the destination of \<^verbatim>\<open>continue\<close>: the chunk of the continue
  statement, chunk 3, branches to chunk 3. The chunk that re-evaluates the condition is the
  header chunk 2, which jumps to the condition chunk 4; no continue reaches it.
\<close>

theorem do_while_continue_skips_condition:
  "buildChunks doWhileContinueBody =
     Inr \<lparr>chunkCounter = 4, finalChunks = doWhileContinueChunks, remainingChunks = [],
          loopStatementReturnChunks = [0 \<mapsto> 1], loopStatementOriginChunks = [0 \<mapsto> 3]\<rparr>
   \<and> map_of doWhileContinueChunks 3
       = Some \<lparr>chunk_id = 3, returnID = 2, statements = [],
               branchBehavior = Some (BreakContext 3)\<rparr>
   \<and> map_of doWhileContinueChunks 2
       = Some \<lparr>chunk_id = 2, returnID = 1, statements = [], branchBehavior = Some (Jump 4)\<rparr>"
  by (simp add: build_eval doWhileContinueBody_def doWhileContinueChunks_def)

theorem optimizer_terminates_on_contiguous_keys_witness:
  "distinct (map fst doWhileContinueChunks)
   \<and> set (map fst doWhileContinueChunks) = {0..<int (length doWhileContinueChunks)}
   \<and> (\<exists>ids. optimizeChunkOrder tailChunkID doWhileContinueChunks = Some (Inr ids)
          \<and> length ids = length doWhileContinueChunks)
   \<and> set [4, 2::int] \<noteq> {}
   \<and> scanUnvisited [4, 2] (int (length doWhileContinueChunks)) 2 = (True, Min (set [4, 2]))"
proof -
  have d: "distinct (map fst doWhileContinueChunks)"
    by (simp add: doWhileContinueChunks_def)
  have s: "set (map fst doWhileContinueChunks) = {0..<int (length doWhileContinueChunks)}"
    by (auto simp: doWhileContinueChunks_def)
  from optimizer_terminates_on_contiguous_keys[OF d s, of tailChunkID "[4, 2]" 2] d s
  show ?thesis by (simp add: doWhileContinueChunks_def)
qed


definition nestedBody :: "statement list" where
  "nestedBody =
     [CommandStatement ''lock'' [],
      IfStatement
        (BinaryExpression (OperatorExpression ''a'') AND (OperatorExpression ''b''),
         [WhileStatement 0 (OperatorExpression ''c'', [BreakStatement 0])])
        [(OperatorExpression ''d'', [CommandStatement ''release'' []])]
        (Some [CommandStatement ''end'' []]),
      CommandStatement ''return'' []]"

theorem chunk_ids_never_collide_witness:
  "reachable nestedBody (initialState nestedBody)
   \<and> remainingChunks (initialState nestedBody)
       = [\<lparr>chunk_id = 0, returnID = -1, statements = nestedBody, branchBehavior = None\<rparr>]
   \<and> (\<exists>st'. processChunk
          \<lparr>chunk_id = 0, returnID = -1, statements = nestedBody, branchBehavior = None\<rparr>
          ((initialState nestedBody)\<lparr>remainingChunks := []\<rparr>) = Inr st'
        \<and> chunkCounter st' = 8
        \<and> chunkCounter (initialState nestedBody) \<le> chunkCounter st'
        \<and> 0 \<notin> set (map fst (finalChunks (initialState nestedBody)))
        \<and> length (finalChunks st') = Suc (length (finalChunks (initialState nestedBody)))
        \<and> distinct (map chunk_id (remainingChunks st') @ map fst (finalChunks st'))
        \<and> set (map chunk_id (remainingChunks st')) \<union> set (map fst (finalChunks st'))
             = {0..chunkCounter st'})"
proof -
  let ?c = "\<lparr>chunk_id = 0, returnID = -1, statements = nestedBody, branchBehavior = None\<rparr>"
  have r: "remainingChunks (initialState nestedBody) = [?c]"
    by (simp add: initialState_def)
  have "\<exists>st'. processChunk ?c ((initialState nestedBody)\<lparr>remainingChunks := []\<rparr>) = Inr st'
          \<and> chunkCounter st' = 8"
    by (simp add: build_eval nestedBody_def)
  then obtain st' where
    p: "processChunk ?c ((initialState nestedBody)\<lparr>remainingChunks := []\<rparr>) = Inr st'"
    and c: "chunkCounter st' = 8"
    by blast
  from chunk_ids_never_collide[OF reachable.init r p] r p c
  show ?thesis by (auto intro: reachable.init)
qed

definition doWhileContinueState :: emit_state where
  "doWhileContinueState =
     \<lparr>chunkCounter = 4, finalChunks = doWhileContinueChunks, remainingChunks = [],
      loopStatementReturnChunks = [0 \<mapsto> 1], loopStatementOriginChunks = [0 \<mapsto> 3]\<rparr>"

theorem optimizer_orders_every_chunk_once_witness:
  "buildChunks doWhileContinueBody = Inr doWhileContinueState
   \<and> optimizeChunkOrder tailChunkID (finalChunks doWhileContinueState) = Some (Inr [0, 3, 1, 2, 4])
   \<and> distinct [0, 3, 1, 2, 4 :: int]
   \<and> set [0, 3, 1, 2, 4] = set (map fst (finalChunks doWhileContinueState))
   \<and> hd [0, 3, 1, 2, 4 :: int] = 0
   \<and> naturalNext tailChunkID
        \<lparr>chunk_id = 3, returnID = 2, statements = [], branchBehavior = Some (BreakContext 3)\<rparr>
       \<in> set (take (Suc 1) [0, 3, 1, 2, 4])
   \<and> [0, 3, 1, 2, 4] ! Suc 1
       = Min (set (map fst (finalChunks doWhileContinueState)) - set (take (Suc 1) [0, 3, 1, 2, 4]))"
proof -
  have e: "buildChunks doWhileContinueBody = Inr doWhileContinueState"
    by (simp add: build_eval doWhileContinueBody_def doWhileContinueChunks_def
        doWhileContinueState_def)
  have o: "optimizeChunkOrder tailChunkID (finalChunks doWhileContinueState)
             = Some (Inr [0, 3, 1, 2, 4])"
    by (simp add: doWhileContinueState_def doWhileContinueChunks_def optimizeChunkOrder_def
        optimizeLoop.simps scanUnvisited.simps)
  from optimizer_orders_every_chunk_once[OF e, of tailChunkID] o
  have f: "fallbackLowest tailChunkID (finalChunks doWhileContinueState) [0, 3, 1, 2, 4] 1"
    and s: "set [0, 3, 1, 2, 4] = set (map fst (finalChunks doWhileContinueState))"
    by auto
  have m: "map_of (finalChunks doWhileContinueState) 3
       = Some \<lparr>chunk_id = 3, returnID = 2, statements = [], branchBehavior = Some (BreakContext 3)\<rparr>"
    by (simp add: doWhileContinueState_def doWhileContinueChunks_def)
  have n: "naturalNext tailChunkID
        \<lparr>chunk_id = 3, returnID = 2, statements = [], branchBehavior = Some (BreakContext 3)\<rparr>
       \<in> set (take (Suc 1) [0, 3, 1, 2, 4])"
    by (simp add: naturalNext_def)
  from f m n have "[0, 3, 1, 2, 4] ! Suc 1
       = Min (set (map fst (finalChunks doWhileContinueState)) - set (take (Suc 1) [0, 3, 1, 2, 4]))"
    unfolding fallbackLowest_def by auto
  with e o s n show ?thesis by simp
qed




section \<open>Rendering the chunks\<close>

text \<open>
  The jump instructions that rendering a chunk's branching writes: an unconditional jump to a
  chunk, or the conditional jump of an atomic comparison to its destination.
\<close>

datatype instruction = Goto int | GotoIf conditionDestination

fun target :: "instruction \<Rightarrow> int" where
  "target (Goto dest) = dest"
| "target (GotoIf dest) = dest_id dest"

text \<open>
  Modelled from the spec: the method \<^verbatim>\<open>renderBranching\<close> of a chunk is defined with the chunk
  type, outside \<^verbatim>\<open>emitter.go\<close>. Following the specification of the renderer: a chunk with no
  branch behaviour emits nothing when its return id is the next chunk in the order or is
  \<open>-1\<close>, and an unconditional jump to its return id otherwise; a jump or a break or continue
  emits nothing when its destination is the next chunk, and an unconditional jump otherwise;
  a conditional leaf emits the conditional jump to its truthy destination and then, unless
  the falsey destination is the next chunk, an unconditional jump to it. Every destination of
  an emitted jump is registered through \<^verbatim>\<open>registerJumpChunk\<close>, and nothing else is. The result
  \<^verbatim>\<open>isFallThrough\<close> is taken to say that the last transfer was elided. The function returns the
  emitted instructions and \<^verbatim>\<open>isFallThrough\<close>; the registered ids are the targets of the
  instructions.
\<close>

definition renderBranching :: "chunk \<Rightarrow> int \<Rightarrow> instruction list \<times> bool" where
  "renderBranching c nextChunkID =
     (case branchBehavior c of
        None \<Rightarrow>
          (if returnID c = nextChunkID then ([], True)
           else if returnID c = -1 then ([], False)
           else ([Goto (returnID c)], False))
      | Some (Jump dest) \<Rightarrow>
          (if dest = nextChunkID then ([], True) else ([Goto dest], False))
      | Some (BreakContext dest) \<Rightarrow>
          (if dest = nextChunkID then ([], True) else ([Goto dest], False))
      | Some (LeafExpressionBranch truthyDest falseyDest) \<Rightarrow>
          (if falseyDest = nextChunkID then ([GotoIf truthyDest], True)
           else ([GotoIf truthyDest, Goto falseyDest], False)))"

text \<open>
  The methods of a chunk and of a branch behaviour that write text or that the optimizer
  calls are parameters of the renderer: \<^verbatim>\<open>renderStatements\<close> gives the text of the chunk's
  statements, \<^verbatim>\<open>renderLabel\<close> the label line of the chunk in a script, \<open>instructionText\<close> the
  line of a jump instruction in a script, and \<^verbatim>\<open>getTailChunkID\<close> the tail id.
\<close>

record chunk_methods =
  renderStatements :: "chunk \<Rightarrow> string"
  renderLabel :: "chunk \<Rightarrow> string \<Rightarrow> string"
  instructionText :: "string \<Rightarrow> instruction \<Rightarrow> string"
  getTailChunkID :: "brancher \<Rightarrow> int"

definition newline :: string where
  "newline = [CHR 0x0A]"

text \<open>The id after the current one in the order: \<^verbatim>\<open>chunkIDs[i+1]\<close>, or \<open>-1\<close> at the end.\<close>

fun nextID :: "int list \<Rightarrow> int" where
  "nextID [] = -1"
| "nextID (n # rest) = n"

text \<open>The text that the first pass writes into the builder of a chunk.\<close>

definition chunkBody :: "chunk_methods \<Rightarrow> string \<Rightarrow> chunk \<Rightarrow> int \<Rightarrow> string" where
  "chunkBody m scriptName c nextChunkID =
     (let (instructions, isFallThrough) = renderBranching c nextChunkID
      in renderStatements m c @ concat (map (instructionText m scriptName) instructions)
           @ (if \<not> isFallThrough then newline else []))"

text \<open>
  The first loop of \<^verbatim>\<open>renderChunks\<close> over the rest of the order, with the maps
  \<^verbatim>\<open>chunkBodies\<close> and \<^verbatim>\<open>jumpChunks\<close>. Calling a method of the chunk \<^verbatim>\<open>chunks[chunkID]\<close> that
  reads its fields panics when the id is not a key.
\<close>

fun renderBodies ::
  "chunk_methods \<Rightarrow> (int \<times> chunk) list \<Rightarrow> string \<Rightarrow> int list \<Rightarrow> (int \<rightharpoonup> string) \<Rightarrow> int set
     \<Rightarrow> error + ((int \<rightharpoonup> string) \<times> int set)" where
  "renderBodies m chunks scriptName [] chunkBodies jumpChunks = Inr (chunkBodies, jumpChunks)"
| "renderBodies m chunks scriptName (chunkID # rest) chunkBodies jumpChunks =
     (case map_of chunks chunkID of
        None \<Rightarrow> Inl NilPointerDereference
      | Some c \<Rightarrow>
          renderBodies m chunks scriptName rest
            (chunkBodies(chunkID \<mapsto> chunkBody m scriptName c (nextID rest)))
            (jumpChunks \<union> set (map target (fst (renderBranching c (nextID rest))))))"

text \<open>The second loop of \<^verbatim>\<open>renderChunks\<close>: the label of a chunk, when rendered, then its body.\<close>

fun renderLabels ::
  "chunk_methods \<Rightarrow> (int \<times> chunk) list \<Rightarrow> string \<Rightarrow> (int \<rightharpoonup> string) \<Rightarrow> int set \<Rightarrow> int list
     \<Rightarrow> string \<Rightarrow> error + string" where
  "renderLabels m chunks scriptName chunkBodies jumpChunks [] sb = Inr sb"
| "renderLabels m chunks scriptName chunkBodies jumpChunks (chunkID # rest) sb =
     (case (map_of chunks chunkID, chunkBodies chunkID) of
        (Some c, Some body) \<Rightarrow>
          renderLabels m chunks scriptName chunkBodies jumpChunks rest
            (sb @ (if chunkID = 0 \<or> chunkID \<in> jumpChunks then renderLabel m c scriptName else [])
                @ body)
      | _ \<Rightarrow> Inl NilPointerDereference)"

text \<open>The order of the chunk ids that \<^verbatim>\<open>renderChunks\<close> computes first.\<close>

definition chunkOrder ::
  "chunk_methods \<Rightarrow> bool \<Rightarrow> (int \<times> chunk) list \<Rightarrow> (error + int list) option" where
  "chunkOrder m optimize chunks =
     (if optimize then optimizeChunkOrder (getTailChunkID m) chunks
      else Some (Inr (sort (map fst chunks))))"

definition renderChunks ::
  "chunk_methods \<Rightarrow> bool \<Rightarrow> (int \<times> chunk) list \<Rightarrow> string \<Rightarrow> (error + string) option" where
  "renderChunks m optimize chunks scriptName =
     (case chunkOrder m optimize chunks of
        None \<Rightarrow> None
      | Some (Inl e) \<Rightarrow> Some (Inl e)
      | Some (Inr chunkIDs) \<Rightarrow>
          Some (case renderBodies m chunks scriptName chunkIDs Map.empty {} of
                  Inl e \<Rightarrow> Inl e
                | Inr (chunkBodies, jumpChunks) \<Rightarrow>
                    renderLabels m chunks scriptName chunkBodies jumpChunks chunkIDs []))"

definition emitScriptStatement ::
  "chunk_methods \<Rightarrow> bool \<Rightarrow> string \<Rightarrow> statement list \<Rightarrow> (error + string) option" where
  "emitScriptStatement m optimize scriptName body =
     (case buildChunks body of
        Inl e \<Rightarrow> Some (Inl e)
      | Inr st \<Rightarrow> renderChunks m optimize (finalChunks st) scriptName)"

section \<open>Emitting a program\<close>

text \<open>
  A top-level statement is a script statement (its name and the statements of its body), a raw
  statement (its text), or any other statement, of which the emitter reads the token literal.
  A text has a name and a value.
\<close>

datatype top_level_statement =
    ScriptStatement string "statement list"
  | RawStatement string
  | UnrecognizedStatement string

record program =
  TopLevelStatements :: "top_level_statement list"
  Texts :: "(string \<times> string) list"

text \<open>\<^verbatim>\<open>strings.Split(s, "\n")\<close>: the pieces of \<open>s\<close> between line feeds, at least one.\<close>

fun splitLines :: "string \<Rightarrow> string list" where
  "splitLines [] = [[]]"
| "splitLines (c # cs) =
     (if c = CHR 0x0A then [] # splitLines cs
      else (case splitLines cs of [] \<Rightarrow> [[c]] | l # ls \<Rightarrow> (c # l) # ls))"

definition emitText :: "string \<times> string \<Rightarrow> string" where
  "emitText text =
     fst text @ '':'' @ newline
       @ concat (map (\<lambda>line. [CHR 0x09] @ ''.string '' @ [CHR 0x22] @ line @ [CHR 0x22] @ newline)
           (splitLines (snd text)))"

definition emitRawStatement :: "string \<Rightarrow> string" where
  "emitRawStatement rawValue = rawValue @ newline"

text \<open>
  The first loop of \<^verbatim>\<open>Emit\<close>, over the top-level statements, with the builder \<^verbatim>\<open>sb\<close> and the
  count \<^verbatim>\<open>i\<close>. It either runs to the end, or leaves \<^verbatim>\<open>Emit\<close> at a statement that is neither a
  script nor a raw statement, after printing its token literal.
\<close>

datatype loop_exit = Completed string nat | NotRecognized string

fun emitStatements ::
  "chunk_methods \<Rightarrow> bool \<Rightarrow> top_level_statement list \<Rightarrow> string \<Rightarrow> nat
     \<Rightarrow> (error + loop_exit) option" where
  "emitStatements m optimize [] sb i = Some (Inr (Completed sb i))"
| "emitStatements m optimize (stmt # rest) sb i =
     (let sb1 = (if i > 0 then sb @ newline else sb)
      in case stmt of
           ScriptStatement name body \<Rightarrow>
             (case emitScriptStatement m optimize name body of
                None \<Rightarrow> None
              | Some (Inl e) \<Rightarrow> Some (Inl e)
              | Some (Inr text) \<Rightarrow> emitStatements m optimize rest (sb1 @ text) (i + 1))
         | RawStatement rawValue \<Rightarrow>
             emitStatements m optimize rest (sb1 @ emitRawStatement rawValue) (i + 1)
         | UnrecognizedStatement literal \<Rightarrow> Some (Inr (NotRecognized literal)))"

text \<open>The second loop of \<^verbatim>\<open>Emit\<close>, over the texts, with their index \<^verbatim>\<open>j\<close>.\<close>

fun emitTexts :: "(string \<times> string) list \<Rightarrow> nat \<Rightarrow> nat \<Rightarrow> string \<Rightarrow> string" where
  "emitTexts [] i j sb = sb"
| "emitTexts (text # rest) i j sb =
     emitTexts rest i (j + 1) ((if i + j > 0 then sb @ newline else sb) @ emitText text)"

text \<open>
  \<^verbatim>\<open>Emit\<close> returns a string and nothing else. What it prints with \<^verbatim>\<open>fmt.Printf\<close> is returned
  beside the string, as the calls made: the format and its argument.
\<close>

definition Emit ::
  "chunk_methods \<Rightarrow> bool \<Rightarrow> program \<Rightarrow> (error + ((string \<times> string) list \<times> string)) option" where
  "Emit m optimize prog =
     (case emitStatements m optimize (TopLevelStatements prog) [] 0 of
        None \<Rightarrow> None
      | Some (Inl e) \<Rightarrow> Some (Inl e)
      | Some (Inr (NotRecognized literal)) \<Rightarrow>
          Some (Inr ([(''Could not emit top-level statement because it is not recognized: %q'',
                       literal)], []))
      | Some (Inr (Completed sb i)) \<Rightarrow> Some (Inr ([], emitTexts (Texts prog) i 0 sb)))"



section \<open>Properties of the order, the renderer and the emitter\<close>

















text \<open>
  An instance of the methods, in the syntax of the scripts that Poryscript writes, to evaluate
  examples: decimal chunk numbers in labels, \<^verbatim>\<open>goto\<close> and \<^verbatim>\<open>goto_if\<close> lines, and the tail id of
  the specification.
\<close>

function showNat :: "nat \<Rightarrow> string" where
  "showNat n =
     (if n < 10 then [''0123456789'' ! n]
      else showNat (n div 10) @ [''0123456789'' ! (n mod 10)])"
  by pat_completeness auto
termination
  by (relation "measure (\<lambda>n. n)") auto

declare showNat.simps [simp del]

definition labelName :: "string \<Rightarrow> int \<Rightarrow> string" where
  "labelName scriptName k =
     (if k = 0 then scriptName else scriptName @ ''_'' @ showNat (nat k))"

fun commandText :: "statement \<Rightarrow> string" where
  "commandText (CommandStatement name args) =
     [CHR 0x09] @ name @ concat (map (\<lambda>a. '' '' @ a) args) @ newline"
| "commandText _ = []"

fun jumpText :: "string \<Rightarrow> instruction \<Rightarrow> string" where
  "jumpText scriptName (Goto dest) =
     [CHR 0x09] @ ''goto '' @ labelName scriptName dest @ newline"
| "jumpText scriptName (GotoIf dest) =
     [CHR 0x09] @ ''goto_if '' @ operatorExpression dest @ '', ''
       @ labelName scriptName (dest_id dest) @ newline"

definition exampleMethods :: chunk_methods where
  "exampleMethods =
     \<lparr>renderStatements = (\<lambda>c. concat (map commandText (statements c))),
      renderLabel = (\<lambda>c scriptName. labelName scriptName (chunk_id c) @ '':'' @ newline),
      instructionText = jumpText,
      getTailChunkID = tailChunkID\<rparr>"






lemma emitLoop_step:
  assumes "remainingChunks st = curChunk # rest"
  shows "emitLoop st =
     (case processChunk curChunk (st\<lparr>remainingChunks := rest\<rparr>) of
        Inl e \<Rightarrow> Inl e | Inr st' \<Rightarrow> emitLoop st')"
  using assms by (subst emitLoop.simps) simp

lemma reachable_emitLoop:
  "reachable body st \<Longrightarrow> emitLoop (initialState body) = emitLoop st"
proof (induction rule: reachable.induct)
  case init
  show ?case by simp
next
  case (step st curChunk rest st')
  from emitLoop_step[OF step.hyps(2)] step.hyps(3) step.IH show ?case by simp
qed


text \<open>
  C3 (as amended). When the worklist loop of a script statement reaches a pending chunk whose
  leading plain commands are followed by a break statement whose loop has no recorded return
  chunk, or by a continue statement whose loop has no recorded origin chunk, the chunk is not
  finalized and nothing falls through: \<^verbatim>\<open>emitScriptStatement\<close> ends in a Go panic, with the
  message \<^verbatim>\<open>Could not emit 'break' statement because its return point is unknown.\<close> (or
  \<^verbatim>\<open>'continue'\<close>), the same for every such statement. The function has no error result.
\<close>

theorem unresolved_break_continue_panics:
  assumes "reachable body st"
    and "remainingChunks st = curChunk # rest"
    and "statements curChunk = pre @ stmt # post"
    and "list_all plainCommand pre"
  shows "(stmt = BreakStatement loopNode \<and> loopStatementReturnChunks st loopNode = None
            \<longrightarrow> emitScriptStatement m optimize scriptName body
                  = Some (Inl (Panic
                      ''Could not emit 'break' statement because its return point is unknown.'')))
       \<and> (stmt = ContinueStatement loopNode \<and> loopStatementOriginChunks st loopNode = None
            \<longrightarrow> emitScriptStatement m optimize scriptName body
                  = Some (Inl (Panic
                      ''Could not emit 'continue' statement because its return point is unknown.'')))"
proof -
  have sc: "scanCommands (statements curChunk) 0 = (False, length pre)"
    if "stmt = BreakStatement loopNode \<or> stmt = ContinueStatement loopNode"
    using that assms(3,4) by (auto simp: scan_prefix)
  have nth: "statements curChunk ! length pre = stmt" using assms(3) by simp
  have len: "length pre \<noteq> length (statements curChunk)" using assms(3) by simp
  have b: "emitLoop st = Inl (Panic
        ''Could not emit 'break' statement because its return point is unknown.'')"
    if "stmt = BreakStatement loopNode" "loopStatementReturnChunks st loopNode = None"
    using that sc nth len by (simp add: emitLoop_step[OF assms(2)] processChunk_def)
  have c: "emitLoop st = Inl (Panic
        ''Could not emit 'continue' statement because its return point is unknown.'')"
    if "stmt = ContinueStatement loopNode" "loopStatementOriginChunks st loopNode = None"
    using that sc nth len by (simp add: emitLoop_step[OF assms(2)] processChunk_def)
  from b c reachable_emitLoop[OF assms(1)] show ?thesis
    by (simp add: emitScriptStatement_def buildChunks_def)
qed

theorem unresolved_break_continue_panics_witness:
  "reachable [CommandStatement ''lock'' [], BreakStatement 7]
     (initialState [CommandStatement ''lock'' [], BreakStatement 7])
   \<and> list_all plainCommand [CommandStatement ''lock'' []]
   \<and> loopStatementReturnChunks (initialState [CommandStatement ''lock'' [], BreakStatement 7]) 7 = None
   \<and> emitScriptStatement exampleMethods True ''S'' [CommandStatement ''lock'' [], BreakStatement 7]
       = Some (Inl (Panic ''Could not emit 'break' statement because its return point is unknown.''))
   \<and> reachable [ContinueStatement 7] (initialState [ContinueStatement 7])
   \<and> loopStatementOriginChunks (initialState [ContinueStatement 7]) 7 = None
   \<and> emitScriptStatement exampleMethods True ''S'' [ContinueStatement 7]
       = Some (Inl (Panic ''Could not emit 'continue' statement because its return point is unknown.''))"
proof -
  let ?b = "[CommandStatement ''lock'' [], BreakStatement 7]"
  let ?c = "[ContinueStatement 7]"
  have r1: "remainingChunks (initialState ?b)
      = \<lparr>chunk_id = 0, returnID = -1, statements = ?b, branchBehavior = None\<rparr> # []"
    by (simp add: initialState_def)
  have s1: "statements \<lparr>chunk_id = 0, returnID = -1, statements = ?b, branchBehavior = None\<rparr>
      = [CommandStatement ''lock'' []] @ BreakStatement 7 # []"
    by simp
  have p1: "list_all plainCommand [CommandStatement ''lock'' []]" by simp
  have n1: "loopStatementReturnChunks (initialState ?b) 7 = None"
    by (simp add: initialState_def)
  have r2: "remainingChunks (initialState ?c)
      = \<lparr>chunk_id = 0, returnID = -1, statements = ?c, branchBehavior = None\<rparr> # []"
    by (simp add: initialState_def)
  have s2: "statements \<lparr>chunk_id = 0, returnID = -1, statements = ?c, branchBehavior = None\<rparr>
      = [] @ ContinueStatement 7 # []"
    by simp
  have p2: "list_all plainCommand []" by simp
  have n2: "loopStatementOriginChunks (initialState ?c) 7 = None"
    by (simp add: initialState_def)
  from unresolved_break_continue_panics[OF reachable.init r1 s1 p1, of 7 exampleMethods True "''S''"] n1
  have e1: "emitScriptStatement exampleMethods True ''S'' ?b
       = Some (Inl (Panic ''Could not emit 'break' statement because its return point is unknown.''))"
    by simp
  from unresolved_break_continue_panics[OF reachable.init r2 s2 p2, of 7 exampleMethods True "''S''"] n2
  have e2: "emitScriptStatement exampleMethods True ''S'' ?c
       = Some (Inl (Panic ''Could not emit 'continue' statement because its return point is unknown.''))"
    by simp
  from e1 e2 n1 n2 p1 reachable.init[of ?b] reachable.init[of ?c] show ?thesis by simp
qed


text \<open>
  Two different scripts with an unbound break both end in a panic, not in an error returned
  to the caller, and with the same message, which names no statement.
\<close>

theorem unresolved_break_counterexample:
  "emitScriptStatement exampleMethods False ''S'' [BreakStatement 0]
     = Some (Inl (Panic ''Could not emit 'break' statement because its return point is unknown.''))
   \<and> emitScriptStatement exampleMethods False ''S'' [CommandStatement ''lock'' [], BreakStatement 7]
     = Some (Inl (Panic ''Could not emit 'break' statement because its return point is unknown.''))"
  by (simp add: emitScriptStatement_def build_eval)

lemma emitStatements_append:
  "emitStatements m optimize (pre @ rest) sb i =
     (case emitStatements m optimize pre sb i of
        Some (Inr (Completed sb' i')) \<Rightarrow> emitStatements m optimize rest sb' i'
      | other \<Rightarrow> other)"
proof (induction pre arbitrary: sb i)
  case Nil
  show ?case by simp
next
  case (Cons s pre)
  show ?case
  proof (cases s)
    case (ScriptStatement name body)
    show ?thesis
    proof (cases "emitScriptStatement m optimize name body")
      case None
      with ScriptStatement show ?thesis by (simp add: Let_def)
    next
      case (Some r)
      with ScriptStatement show ?thesis
        by (cases r) (simp_all add: Let_def Cons.IH)
    qed
  next
    case (RawStatement rawValue)
    then show ?thesis by (simp add: Let_def Cons.IH)
  next
    case (UnrecognizedStatement literal)
    then show ?thesis by (simp add: Let_def)
  qed
qed


text \<open>
  C2 (as amended). For a program with a top-level statement that is neither a script nor a raw
  statement: when the statements before it are emitted without a panic, \<^verbatim>\<open>Emit\<close> prints one
  line that names the statement's token literal and returns the empty string; and whenever
  \<^verbatim>\<open>Emit\<close> returns for such a program, it returns the empty string after printing such a
  line. What was emitted for the earlier statements is dropped and no text is emitted; no
  error reaches the caller, since \<^verbatim>\<open>Emit\<close> returns a string only.
\<close>

theorem unrecognized_statement_returns_empty:
  shows "(emitStatements m optimize pre [] 0 = Some (Inr (Completed sb i))
           \<longrightarrow> Emit m optimize
                 \<lparr>TopLevelStatements = pre @ UnrecognizedStatement literal # post, Texts = texts\<rparr>
               = Some (Inr ([(''Could not emit top-level statement because it is not recognized: %q'',
                              literal)], [])))
       \<and> (Emit m optimize
             \<lparr>TopLevelStatements = pre @ UnrecognizedStatement literal # post, Texts = texts\<rparr>
            = Some (Inr (printed, out))
           \<longrightarrow> out = []
               \<and> (\<exists>l. printed =
                     [(''Could not emit top-level statement because it is not recognized: %q'', l)]))"
proof -
  let ?prog = "\<lparr>TopLevelStatements = pre @ UnrecognizedStatement literal # post, Texts = texts\<rparr>"
  have e: "emitStatements m optimize (TopLevelStatements ?prog) [] 0 =
     (case emitStatements m optimize pre [] 0 of
        Some (Inr (Completed sb' i')) \<Rightarrow> Some (Inr (NotRecognized literal))
      | other \<Rightarrow> other)"
    by (simp add: emitStatements_append Let_def
        split: option.splits sum.splits loop_exit.splits)
  show ?thesis
  proof (cases "emitStatements m optimize pre [] 0")
    case None
    with e show ?thesis by (simp add: Emit_def)
  next
    case (Some r)
    show ?thesis
    proof (cases r)
      case (Inl err)
      with Some e show ?thesis by (simp add: Emit_def)
    next
      case (Inr x)
      with Some e show ?thesis by (cases x) (auto simp: Emit_def)
    qed
  qed
qed

theorem unrecognized_statement_returns_empty_witness:
  "emitStatements exampleMethods True [RawStatement ''raw''] [] 0
     = Some (Inr (Completed (''raw'' @ newline) 1))
   \<and> Emit exampleMethods True
        \<lparr>TopLevelStatements = [RawStatement ''raw''] @ UnrecognizedStatement ''mapscripts''
            # [RawStatement ''more''],
         Texts = [(''Text'', ''hello'')]\<rparr>
       = Some (Inr ([(''Could not emit top-level statement because it is not recognized: %q'',
                      ''mapscripts'')], []))
   \<and> ([] :: string) = []
   \<and> (\<exists>l. [(''Could not emit top-level statement because it is not recognized: %q'',
                ''mapscripts'')]
           = [(''Could not emit top-level statement because it is not recognized: %q'', l)])"
proof -
  have e: "emitStatements exampleMethods True [RawStatement ''raw''] [] 0
     = Some (Inr (Completed (''raw'' @ newline) 1))"
    by (simp add: emitRawStatement_def)
  note t = unrecognized_statement_returns_empty[of exampleMethods True "[RawStatement ''raw'']"
      "''raw'' @ newline" 1 "''mapscripts''" "[RawStatement ''more'']" "[(''Text'', ''hello'')]"
      "[(''Could not emit top-level statement because it is not recognized: %q'', ''mapscripts'')]"
      "[]"]
  from t e have r: "Emit exampleMethods True
        \<lparr>TopLevelStatements = [RawStatement ''raw''] @ UnrecognizedStatement ''mapscripts''
            # [RawStatement ''more''],
         Texts = [(''Text'', ''hello'')]\<rparr>
       = Some (Inr ([(''Could not emit top-level statement because it is not recognized: %q'',
                      ''mapscripts'')], []))"
    by blast
  from t r have "([] :: string) = []
   \<and> (\<exists>l. [(''Could not emit top-level statement because it is not recognized: %q'',
                ''mapscripts'')]
           = [(''Could not emit top-level statement because it is not recognized: %q'', l)])"
    by blast
  with e r show ?thesis by blast
qed


text \<open>
  A raw statement followed by an unrecognized statement, with one text: \<^verbatim>\<open>Emit\<close> returns the
  empty string, and not an error.
\<close>

theorem unrecognized_statement_counterexample:
  "Emit exampleMethods False
     \<lparr>TopLevelStatements = [RawStatement ''raw'', UnrecognizedStatement ''mapscripts''],
      Texts = [(''Text'', ''hello'')]\<rparr>
   = Some (Inr ([(''Could not emit top-level statement because it is not recognized: %q'',
                  ''mapscripts'')], []))"
  by (simp add: Emit_def emitRawStatement_def)


end
